theory Spec2Isabelle
  imports Complex_Main
begin

section \<open>ChebPE: the subroutines of \<^verbatim>\<open>src/chebpe/chebpe.ipynb\<close>\<close>

text \<open>
  The notebook computes with IEEE doubles (Python \<^verbatim>\<open>float\<close>, NumPy \<^verbatim>\<open>float64\<close>). The
  embedding idealises a finite double as a \<^typ>\<open>real\<close>: rounding and overflow are not
  modelled. What is modelled is the control flow that the special values cause: a NaN
  is \<open>None\<close> of \<^typ>\<open>real option\<close>, the quotient of the NumPy division of line 151 is a
  value of \<open>np_quot\<close> (which has the two infinities), and every Python exception is a
  value of \<open>error\<close>. The arguments \<open>eps\<close> and \<open>alpha\<close> of \<^verbatim>\<open>chebpe\<close> are taken to be
  Python floats and \<open>r\<close> and \<open>Nshots\<close> Python ints.
\<close>

datatype error = ZeroDivisionError | ValueError | OverflowError

text \<open>
  Modelled from the spec: \<^verbatim>\<open>scipy.special.eval_chebyt(n, x)\<close>, imported as \<^verbatim>\<open>cheb\<close>, is
  library code and not under \<^verbatim>\<open>src/\<close>. It is the spec's \<open>T\<^sub>n\<close>, the Chebyshev polynomial
  of the first kind with \<open>T\<^sub>n(cos \<theta>) = cos(n \<theta>)\<close>, given here by its three-term
  recurrence; the identity is proved below.
\<close>

fun cheb :: "nat \<Rightarrow> real \<Rightarrow> real" where
  "cheb 0 x = 1"
| "cheb (Suc 0) x = x"
| "cheb (Suc (Suc n)) x = 2 * x * cheb (Suc n) x - cheb n x"

text \<open>Python's \<^verbatim>\<open>int(x)\<close> on a finite float truncates towards zero.\<close>

definition py_int :: "real \<Rightarrow> int" where
  "py_int x = (if 0 \<le> x then \<lfloor>x\<rfloor> else \<lceil>x\<rceil>)"

text \<open>
  \<^verbatim>\<open>invert_T2rootp(T2, n, p_int)\<close>, lines 53-67. \<^verbatim>\<open>np.pi/(2*n)\<close> is a Python float divided
  by a Python int, so \<open>n = 0\<close> raises. \<^verbatim>\<open>np.sqrt\<close> and \<^verbatim>\<open>np.arccos\<close> return NaN outside
  their domains and the NaN reaches the result: \<^verbatim>\<open>t % 2 == 0\<close> is then false and every
  later operation keeps the NaN. \<open>T2\<close> is \<open>None\<close> when the caller passes a NaN.
\<close>

definition invert_T2rootp :: "real option \<Rightarrow> int \<Rightarrow> real \<Rightarrow> error + real option" where
  "invert_T2rootp T2 n p_int =
     (if n = 0 then Inl ZeroDivisionError
      else case T2 of
        None \<Rightarrow> Inr None
      | Some T2v \<Rightarrow>
          if p_int < 0 \<or> 1 < p_int \<or> T2v < 0 \<or> 1 < T2v then Inr None
          else
            let theta_int = arccos (sqrt p_int);
                c = pi / (2 * real_of_int n);
                t = \<lfloor>theta_int / c\<rfloor>;
                theta = (if t mod 2 = 0 then arccos (2 * T2v - 1) / (2 * real_of_int n)
                         else 2 * c - arccos (2 * T2v - 1) / (2 * real_of_int n));
                k = t div 2;
                theta = theta + pi * real_of_int k / real_of_int n
            in Inr (Some ((cos theta)\<^sup>2)))"

text \<open>
  \<^verbatim>\<open>find_next_k(p_min, p_max, min_k)\<close>, lines 70-86. Step 2 (lines 78-79) is
  \<open>first_candidate\<close>; the test of line 83 is \<open>no_extremum\<close>; the \<^verbatim>\<open>while\<close> loop of
  Step 3 is \<open>search_k\<close>, which terminates because \<open>n\<close> falls by 2 towards the floor.
\<close>

definition first_candidate :: "real \<Rightarrow> real \<Rightarrow> int" where
  "first_candidate theta_lo theta_hi =
     (let n = py_int ((pi / 2) / (theta_hi - theta_lo))
      in if n mod 2 = 0 then n + 1 else n)"

definition no_extremum :: "int \<Rightarrow> real \<Rightarrow> real \<Rightarrow> bool" where
  "no_extremum n theta_lo theta_hi \<longleftrightarrow>
     py_int (2 * real_of_int n * theta_lo / pi) = py_int (2 * real_of_int n * theta_hi / pi)"

function search_k :: "int \<Rightarrow> real \<Rightarrow> real \<Rightarrow> int \<Rightarrow> int option" where
  "search_k n theta_lo theta_hi min_k =
     (if n > 2 * min_k + 1 then
        (if no_extremum n theta_lo theta_hi then Some ((n - 1) div 2)
         else search_k (n - 2) theta_lo theta_hi min_k)
      else None)"
  by pat_completeness auto
termination
  by (relation "measure (\<lambda>(n, theta_lo, theta_hi, min_k). nat (n - (2 * min_k + 1)))") auto

text \<open>
  The candidates on which the loop evaluates the test of line 83, in the order tested:
  the same loop as \<open>search_k\<close>, recording \<open>n\<close> at each test.
\<close>

function tested_from :: "int \<Rightarrow> real \<Rightarrow> real \<Rightarrow> int \<Rightarrow> int list" where
  "tested_from n theta_lo theta_hi min_k =
     (if n > 2 * min_k + 1 then
        (if no_extremum n theta_lo theta_hi then [n]
         else n # tested_from (n - 2) theta_lo theta_hi min_k)
      else [])"
  by pat_completeness auto
termination
  by (relation "measure (\<lambda>(n, theta_lo, theta_hi, min_k). nat (n - (2 * min_k + 1)))") auto

declare search_k.simps [simp del] tested_from.simps [simp del]

text \<open>
  The whole function. An argument outside \<open>[0,1]\<close> makes \<^verbatim>\<open>np.arccos(np.sqrt(.))\<close> a NaN,
  and \<^verbatim>\<open>int(nan)\<close> raises \<^verbatim>\<open>ValueError\<close>; equal angles make the NumPy quotient of line 78
  infinite, and \<^verbatim>\<open>int(inf)\<close> raises \<^verbatim>\<open>OverflowError\<close>. \<^verbatim>\<open>None\<close> is the sentinel of line 86.

  Where the reals part from the doubles here: over the reals \<open>arccos (sqrt .)\<close> is
  injective, so the angles are equal only for \<open>p_min = p_max\<close>, while two neighbouring
  doubles can have equal angles and take the \<^verbatim>\<open>OverflowError\<close> path; and where a quotient
  of line 78 or 83 is an integer over the reals (as \<open>2 n \<theta>_hi / \<pi> = n\<close> at \<open>p_min = 0\<close>),
  the rounded quotient of the code can fall on the other side of it.
\<close>

definition find_next_k :: "real \<Rightarrow> real \<Rightarrow> int \<Rightarrow> error + int option" where
  "find_next_k p_min p_max min_k =
     (if p_min < 0 \<or> 1 < p_min \<or> p_max < 0 \<or> 1 < p_max then Inl ValueError
      else
        let theta_lo = arccos (sqrt p_max);
            theta_hi = arccos (sqrt p_min)
        in if theta_hi = theta_lo then Inl OverflowError
           else Inr (search_k (first_candidate theta_lo theta_hi) theta_lo theta_hi min_k))"

definition candidates_tested :: "real \<Rightarrow> real \<Rightarrow> int \<Rightarrow> int list" where
  "candidates_tested p_min p_max min_k =
     (let theta_lo = arccos (sqrt p_max);
          theta_hi = arccos (sqrt p_min)
      in tested_from (first_candidate theta_lo theta_hi) theta_lo theta_hi min_k)"


section \<open>The estimation loop \<^verbatim>\<open>chebpe\<close>\<close>

text \<open>
  \<^verbatim>\<open>statsmodels.stats.proportion.proportion_confint(count, nobs, method="beta", alpha)\<close>
  is library code and is a parameter \<open>confint\<close> of the model: it maps \<open>count\<close>,
  \<open>nobs\<close> and \<open>alpha\<close> to the two bounds, each a double or a NaN.

  \<^verbatim>\<open>max_error_cp(delta, Nshots)\<close>, lines 89-101. \<^verbatim>\<open>range(0, Nshots+1)\<close> is the list
  \<open>[0..Nshots]\<close>, empty when \<open>Nshots < 0\<close>; a comparison with a NaN is false.
\<close>

type_synonym confint = "int \<Rightarrow> int \<Rightarrow> real \<Rightarrow> real option \<times> real option"

definition max_error_cp :: "confint \<Rightarrow> real \<Rightarrow> int \<Rightarrow> real" where
  "max_error_cp confint delta Nshots =
     fold (\<lambda>counts max_error.
             case confint counts Nshots delta of
               (Some lower, Some upper) \<Rightarrow>
                 if (upper - lower) / 2 > max_error then (upper - lower) / 2 else max_error
             | _ \<Rightarrow> max_error)
          [0..Nshots] 0"

text \<open>
  The quotient of a NumPy float division: dividing by zero does not raise, it gives an
  infinity with the sign of the numerator, or a NaN when the numerator is zero too (a
  difference of two equal doubles is \<open>+0.0\<close>). \<open>np_less q y\<close> is \<^verbatim>\<open>q < y\<close> for a finite
  \<open>y\<close>.
\<close>

datatype np_quot = Quot real | PlusInf | MinusInf | QNaN

definition np_divide :: "real \<Rightarrow> real \<Rightarrow> np_quot" where
  "np_divide a b =
     (if b \<noteq> 0 then Quot (a / b)
      else if 0 < a then PlusInf
      else if a < 0 then MinusInf
      else QNaN)"

definition np_less :: "np_quot \<Rightarrow> real \<Rightarrow> bool" where
  "np_less q y = (case q of Quot v \<Rightarrow> v < y | MinusInf \<Rightarrow> True | PlusInf \<Rightarrow> False | QNaN \<Rightarrow> False)"

text \<open>
  Python's \<^verbatim>\<open>sorted\<close> on a list of two, \<^verbatim>\<open>max(a, b)\<close> and \<^verbatim>\<open>min(a, b)\<close>, on doubles of
  which the second may be a NaN: \<^verbatim>\<open>sorted\<close> swaps when the second is less than the first,
  \<^verbatim>\<open>max\<close> and \<^verbatim>\<open>min\<close> keep the first argument unless the second compares beyond it.
\<close>

definition nan_less :: "real option \<Rightarrow> real option \<Rightarrow> bool" where
  "nan_less a b = (case (a, b) of (Some u, Some v) \<Rightarrow> u < v | _ \<Rightarrow> False)"

definition py_sorted2 :: "real option \<Rightarrow> real option \<Rightarrow> real option \<times> real option" where
  "py_sorted2 x y = (if nan_less y x then (y, x) else (x, y))"

definition py_max :: "real \<Rightarrow> real option \<Rightarrow> real" where
  "py_max a b = (case b of Some v \<Rightarrow> if v > a then v else a | None \<Rightarrow> a)"

definition py_min :: "real \<Rightarrow> real option \<Rightarrow> real" where
  "py_min a b = (case b of Some v \<Rightarrow> if v < a then v else a | None \<Rightarrow> a)"

text \<open>
  The local variables that the loop of \<^verbatim>\<open>chebpe\<close> updates (lines 131-134). \<open>draws\<close> is
  not a variable of the source: the module-level generator behind \<^verbatim>\<open>np.random.random()\<close>
  is modelled as a sequence \<open>rnd\<close> of doubles in \<open>[0,1)\<close>, and \<open>draws\<close> counts how many
  have been consumed.
\<close>

record state =
  p_min :: real
  p_max :: real
  num_flips :: int
  num_heads :: int
  k :: int
  queries :: int
  draws :: nat

text \<open>Line 150, and the quotient and the test of line 151, lines 151-154.\<close>

definition gap :: "state \<Rightarrow> real" where
  "gap st = (cheb (nat (2 * k st + 1)) (sqrt (p_max st)))\<^sup>2
            - (cheb (nat (2 * k st + 1)) (sqrt (p_min st)))\<^sup>2"

definition late_ratio :: "real \<Rightarrow> state \<Rightarrow> np_quot" where
  "late_ratio err_max st = np_divide (err_max * (p_max st - p_min st)) (gap st)"

definition Nshots_i :: "real \<Rightarrow> real \<Rightarrow> real \<Rightarrow> int \<Rightarrow> state \<Rightarrow> int" where
  "Nshots_i err_max nu eps Nshots st =
     (if np_less (late_ratio err_max st) (nu * eps) then 1 else Nshots)"

text \<open>
  Lines 157-163. \<^verbatim>\<open>np.sqrt\<close> of a negative \<open>p_target\<close> is a NaN, and so is \<open>T2\<close>; no
  draw is less than a NaN.
\<close>

definition oracle_T2 :: "real \<Rightarrow> int \<Rightarrow> real option" where
  "oracle_T2 p_target kk =
     (if p_target < 0 then None else Some ((cheb (nat (2 * kk + 1)) (sqrt p_target))\<^sup>2))"

fun toss_coins :: "(nat \<Rightarrow> real) \<Rightarrow> real option \<Rightarrow> nat \<Rightarrow> state \<Rightarrow> state" where
  "toss_coins rnd T2 0 st = st"
| "toss_coins rnd T2 (Suc i) st =
     toss_coins rnd T2 i
       (st\<lparr>num_heads := (if nan_less (Some (rnd (draws st))) T2 then num_heads st + 1
                          else num_heads st),
           num_flips := num_flips st + 1,
           queries := queries st + (2 * k st + 1),
           draws := Suc (draws st)\<rparr>)"

text \<open>
  One execution of the loop body, lines 139-182. An exception of \<open>find_next_k\<close> or
  of \<open>invert_T2rootp\<close> leaves the loop and \<^verbatim>\<open>chebpe\<close>. \<^verbatim>\<open>range(Nshots_i)\<close> is empty for
  \<open>Nshots_i \<le> 0\<close>.
\<close>

definition chebpe_iter ::
  "confint \<Rightarrow> (nat \<Rightarrow> real) \<Rightarrow> real \<Rightarrow> real \<Rightarrow> real \<Rightarrow> real \<Rightarrow> real \<Rightarrow> int \<Rightarrow> int \<Rightarrow> state
   \<Rightarrow> error + state" where
  "chebpe_iter confint rnd p_target eps alpha_T err_max nu r Nshots st =
     (case find_next_k (p_min st) (p_max st) (r * k st) of
        Inl e \<Rightarrow> Inl e
      | Inr new_k \<Rightarrow>
          let st1 = (case new_k of
                       None \<Rightarrow> st
                     | Some nk \<Rightarrow> st\<lparr>k := nk, num_flips := 0, num_heads := 0\<rparr>);
              n_i = Nshots_i err_max nu eps Nshots st1;
              st2 = toss_coins rnd (oracle_T2 p_target (k st1)) (nat n_i) st1;
              (T2_min, T2_max) = confint (num_heads st2) (num_flips st2) alpha_T;
              p_int = (p_min st2 + p_max st2) / 2
          in case invert_T2rootp T2_min (2 * k st2 + 1) p_int of
               Inl e \<Rightarrow> Inl e
             | Inr p_min_star \<Rightarrow>
                 (case invert_T2rootp T2_max (2 * k st2 + 1) p_int of
                    Inl e \<Rightarrow> Inl e
                  | Inr p_max_star \<Rightarrow>
                      let (p_min_star, p_max_star) = py_sorted2 p_min_star p_max_star;
                          p_min_star = map_option (\<lambda>v. v - 1 / 10 ^ 15) p_min_star;
                          p_max_star = map_option (\<lambda>v. v + 1 / 10 ^ 15) p_max_star
                      in Inr (st2\<lparr>p_min := py_max (p_min st2) p_min_star,
                                  p_max := py_min (p_max st2) p_max_star\<rparr>)))"

text \<open>
  The \<^verbatim>\<open>while\<close> loop of line 137. Nothing bounds the number of its iterations, so the
  model takes fuel, the number of iterations it may run: \<open>None\<close> is a run that needs
  more. \<open>chebpe_iterate n\<close> is the state at the top of iteration \<open>n + 1\<close>, when the loop
  gets that far.
\<close>

fun chebpe_loop ::
  "confint \<Rightarrow> (nat \<Rightarrow> real) \<Rightarrow> real \<Rightarrow> real \<Rightarrow> real \<Rightarrow> real \<Rightarrow> real \<Rightarrow> int \<Rightarrow> int \<Rightarrow> nat \<Rightarrow> state
   \<Rightarrow> (error + state) option" where
  "chebpe_loop confint rnd p_target eps alpha_T err_max nu r Nshots 0 st =
     (if p_max st - p_min st > eps * 2 then None else Some (Inr st))"
| "chebpe_loop confint rnd p_target eps alpha_T err_max nu r Nshots (Suc fuel) st =
     (if p_max st - p_min st > eps * 2 then
        (case chebpe_iter confint rnd p_target eps alpha_T err_max nu r Nshots st of
           Inl e \<Rightarrow> Some (Inl e)
         | Inr st' \<Rightarrow> chebpe_loop confint rnd p_target eps alpha_T err_max nu r Nshots fuel st')
      else Some (Inr st))"

fun chebpe_iterate ::
  "confint \<Rightarrow> (nat \<Rightarrow> real) \<Rightarrow> real \<Rightarrow> real \<Rightarrow> real \<Rightarrow> real \<Rightarrow> real \<Rightarrow> int \<Rightarrow> int \<Rightarrow> nat \<Rightarrow> state
   \<Rightarrow> state option" where
  "chebpe_iterate confint rnd p_target eps alpha_T err_max nu r Nshots 0 st = Some st"
| "chebpe_iterate confint rnd p_target eps alpha_T err_max nu r Nshots (Suc n) st =
     (if p_max st - p_min st > eps * 2 then
        (case chebpe_iter confint rnd p_target eps alpha_T err_max nu r Nshots st of
           Inl e \<Rightarrow> None
         | Inr st' \<Rightarrow> chebpe_iterate confint rnd p_target eps alpha_T err_max nu r Nshots n st')
      else None)"

text \<open>
  Line 124, with \<open>eps\<close> a Python float and \<open>r\<close> a Python int. \<^verbatim>\<open>1/(2*eps)\<close> raises for
  \<open>eps = 0\<close>; the logarithm of a negative number is a NaN, and \<^verbatim>\<open>int(nan)\<close> raises
  \<^verbatim>\<open>ValueError\<close>; \<^verbatim>\<open>np.log(0)\<close> is \<open>-inf\<close>, which makes the quotient a zero; \<^verbatim>\<open>np.log(1)\<close>
  is zero, which makes the quotient infinite (\<^verbatim>\<open>OverflowError\<close>) or a NaN.

  The class of the exception at \<open>eps = 0\<close> is that of a Python float: for a NumPy
  \<^verbatim>\<open>float64\<close> the quotient \<^verbatim>\<open>1/(2*eps)\<close> is infinite and \<^verbatim>\<open>int\<close> raises \<^verbatim>\<open>OverflowError\<close>
  instead. And where the quotient of the two logarithms is an integer over the reals,
  the rounded quotient of the code can exceed it and the ceiling be one more.
\<close>

definition chebpe_T :: "real \<Rightarrow> int \<Rightarrow> error + int" where
  "chebpe_T eps r =
     (if eps = 0 then Inl ZeroDivisionError
      else if eps < 0 then Inl ValueError
      else if r < 0 then Inl ValueError
      else if r = 0 then Inr 0
      else if r = 1 then (if ln (1 / (2 * eps)) = 0 then Inl ValueError else Inl OverflowError)
      else Inr \<lceil>ln (1 / (2 * eps)) / ln (real_of_int r)\<rceil>)"

definition chebpe_init :: state where
  "chebpe_init = \<lparr>p_min = 0, p_max = 1, num_flips = 0, num_heads = 0, k = 0, queries = 0,
                  draws = 0\<rparr>"

text \<open>
  The dictionary of lines 184-192, without the entries that repeat the arguments.
\<close>

record result =
  p_estimate :: real
  exact_error :: real
  ci_width :: real
  num_oracle_calls :: int

definition chebpe_result :: "real \<Rightarrow> state \<Rightarrow> result" where
  "chebpe_result p_target st =
     \<lparr>p_estimate = (p_min st + p_max st) / 2,
      exact_error = \<bar>p_target - (p_min st + p_max st) / 2\<bar>,
      ci_width = (p_max st - p_min st) / 2,
      num_oracle_calls = queries st\<rparr>"

text \<open>
  \<^verbatim>\<open>chebpe(p_target, eps, alpha, nu, r, Nshots)\<close>, lines 119-192. \<^verbatim>\<open>alpha/T\<close> divides a
  Python float by a Python int and raises for \<open>T = 0\<close>. \<open>chebpe_after n\<close> is the state
  of the same run at the top of iteration \<open>n + 1\<close>.
\<close>

definition chebpe ::
  "confint \<Rightarrow> (nat \<Rightarrow> real) \<Rightarrow> nat \<Rightarrow> real \<Rightarrow> real \<Rightarrow> real \<Rightarrow> real \<Rightarrow> int \<Rightarrow> int
   \<Rightarrow> (error + result) option" where
  "chebpe confint rnd fuel p_target eps alpha nu r Nshots =
     (case chebpe_T eps r of
        Inl e \<Rightarrow> Some (Inl e)
      | Inr T \<Rightarrow>
          if T = 0 then Some (Inl ZeroDivisionError)
          else
            let alpha_T = alpha / real_of_int T;
                err_max = max_error_cp confint alpha_T Nshots
            in case chebpe_loop confint rnd p_target eps alpha_T err_max nu r Nshots fuel
                      chebpe_init of
                 None \<Rightarrow> None
               | Some (Inl e) \<Rightarrow> Some (Inl e)
               | Some (Inr st) \<Rightarrow> Some (Inr (chebpe_result p_target st)))"

definition chebpe_after ::
  "confint \<Rightarrow> (nat \<Rightarrow> real) \<Rightarrow> nat \<Rightarrow> real \<Rightarrow> real \<Rightarrow> real \<Rightarrow> real \<Rightarrow> int \<Rightarrow> int \<Rightarrow> state option" where
  "chebpe_after confint rnd n p_target eps alpha nu r Nshots =
     (case chebpe_T eps r of
        Inl e \<Rightarrow> None
      | Inr T \<Rightarrow>
          if T = 0 then None
          else
            let alpha_T = alpha / real_of_int T;
                err_max = max_error_cp confint alpha_T Nshots
            in chebpe_iterate confint rnd p_target eps alpha_T err_max nu r Nshots n
                 chebpe_init)"

text \<open>
  Modelled from the spec: \<^verbatim>\<open>proportion_confint\<close> is library code and not under \<^verbatim>\<open>src/\<close>.
  Section 4.1 of the spec gives its bounds: the lower one is the \<open>delta/2\<close> quantile of
  \<open>Beta(s, m-s+1)\<close>, the upper one the \<open>1 - delta/2\<close> quantile of \<open>Beta(s+1, m-s)\<close>, and
  \<open>s = 0\<close> forces the lower bound 0, \<open>s = m\<close> the upper bound 1. At these two edges the
  quantiles have a closed form: the \<open>1 - delta/2\<close> quantile of \<open>Beta(1, m)\<close> is one minus
  the \<open>m\<close>-th root of \<open>delta/2\<close>, and the \<open>delta/2\<close> quantile of \<open>Beta(m, 1)\<close> is that
  root. A quantile at a level outside \<open>[0,1]\<close> is a NaN, and so are both bounds for
  \<open>nobs \<le> 0\<close>. Between the two edges the quantiles have no closed form and this
  function returns NaN bounds: it stands for the library only in runs whose tallies stay
  at an edge, which the concrete runs below are (\<open>Nshots = 1\<close> and a target of
  probability 0, so that \<open>max_error_cp\<close> and every iteration see no tally with both heads
  and tails).
\<close>

definition clopper_pearson_edge :: confint where
  "clopper_pearson_edge count nobs delta =
     (if nobs \<le> 0 then (None, None)
      else if count = 0 then
        (Some 0,
         if 0 \<le> delta / 2 \<and> delta / 2 \<le> 1 then Some (1 - root (nat nobs) (delta / 2)) else None)
      else if count = nobs then
        (if 0 \<le> delta / 2 \<and> delta / 2 \<le> 1 then Some (root (nat nobs) (delta / 2)) else None,
         Some 1)
      else (None, None))"

text \<open>A random source whose every draw is 0.\<close>

definition rnd_zero :: "nat \<Rightarrow> real" where
  "rnd_zero i = 0"

text \<open>
  A state at the test of line 151, with degree \<open>n = 3\<close>, for which
  \<open>T\<^sub>3(\<surd>p)\<^sup>2 = p (4 p - 3)\<^sup>2\<close>: on \<open>[3/10, 7/10]\<close> the polynomial falls and the gap
  is negative.
\<close>

definition falling_state :: state where
  "falling_state = \<lparr>p_min = 3 / 10, p_max = 7 / 10, num_flips = 0, num_heads = 0, k = 1,
                     queries = 0, draws = 0\<rparr>"


section \<open>Chebyshev polynomials and the inverter\<close>

lemma cheb_cos: "cheb n (cos x) = cos (real n * x)"
proof (induction n "cos x" rule: cheb.induct)
  case 1
  show ?case by simp
next
  case 2
  show ?case by simp
next
  case (3 n)
  have "cos (real (Suc (Suc n)) * x) + cos (real n * x) = 2 * cos x * cos (real (Suc n) * x)"
  proof -
    have a: "real (Suc (Suc n)) * x = real (Suc n) * x + x" by (simp add: algebra_simps)
    have b: "real n * x = real (Suc n) * x - x" by (simp add: algebra_simps)
    show ?thesis unfolding a b by (simp add: cos_add cos_diff)
  qed
  with 3 show ?case by simp
qed

lemma cheb_sqrt_sq:
  assumes "0 \<le> p" "p \<le> 1"
  shows "(cheb n (sqrt p))\<^sup>2 = (cos (real n * arccos (sqrt p)))\<^sup>2"
proof -
  have "sqrt p \<le> 1" using assms by simp
  moreover have "0 \<le> sqrt p" using assms by simp
  ultimately have "cos (arccos (sqrt p)) = sqrt p" by (intro cos_arccos) linarith+
  then show ?thesis using cheb_cos [of n "arccos (sqrt p)"] by simp
qed

lemma cos_add_2pi_int: "cos (x + 2 * pi * real_of_int j) = cos x"
  by (simp add: cos_add)

lemma cos_sub_2pi_int: "cos (2 * pi * real_of_int j - x) = cos x"
  by (simp add: cos_diff)

lemma invert_range:
  assumes "invert_T2rootp T2 n p_int = Inr (Some v)"
  shows "0 \<le> v \<and> v \<le> 1"
proof -
  have sq: "0 \<le> (cos y)\<^sup>2 \<and> (cos y)\<^sup>2 \<le> 1" for y :: real
    by (simp add: abs_square_le_1 abs_cos_le_one)
  from assms show ?thesis
    by (auto simp: invert_T2rootp_def Let_def sq split: if_splits option.splits)
qed

lemma invert_defined:
  assumes "0 \<le> T2" "T2 \<le> 1" "n \<noteq> 0" "0 \<le> p_int" "p_int \<le> 1"
  shows "\<exists>v. invert_T2rootp (Some T2) n p_int = Inr (Some v)"
  using assms by (simp add: invert_T2rootp_def Let_def)


lemma arccos_sqrt_bounds:
  assumes "0 \<le> p" "p \<le> 1"
  shows "0 \<le> arccos (sqrt p)" "arccos (sqrt p) \<le> pi / 2" "cos (arccos (sqrt p)) = sqrt p"
proof -
  have s: "0 \<le> sqrt p" "sqrt p \<le> 1" using assms by simp_all
  show "0 \<le> arccos (sqrt p)" using s by (intro arccos_lbound) linarith+
  show "arccos (sqrt p) \<le> pi / 2" using s by (intro arccos_le_pi2)
  show "cos (arccos (sqrt p)) = sqrt p" using s by (intro cos_arccos) linarith+
qed

lemma invert_unfold:
  assumes "n \<noteq> 0" "0 \<le> T2" "T2 \<le> 1" "0 \<le> p_int" "p_int \<le> 1"
  shows "invert_T2rootp (Some T2) n p_int =
     Inr (Some ((cos ((if \<lfloor>arccos (sqrt p_int) / (pi / (2 * real_of_int n))\<rfloor> mod 2 = 0
                        then arccos (2 * T2 - 1) / (2 * real_of_int n)
                        else 2 * (pi / (2 * real_of_int n)) - arccos (2 * T2 - 1) / (2 * real_of_int n))
                      + pi * real_of_int (\<lfloor>arccos (sqrt p_int) / (pi / (2 * real_of_int n))\<rfloor> div 2)
                        / real_of_int n))\<^sup>2))"
  using assms unfolding invert_T2rootp_def Let_def by simp

lemma invert_roundtrip_gen:
  fixes n :: int and p p_ref :: real
  assumes n: "0 < n" and p: "0 \<le> p" "p \<le> 1" and pr: "0 \<le> p_ref" "p_ref \<le> 1"
    and lo: "real_of_int \<lfloor>arccos (sqrt p_ref) / (pi / (2 * real_of_int n))\<rfloor> * (pi / (2 * real_of_int n)) \<le> arccos (sqrt p)"
    and hi: "arccos (sqrt p) \<le> (real_of_int \<lfloor>arccos (sqrt p_ref) / (pi / (2 * real_of_int n))\<rfloor> + 1) * (pi / (2 * real_of_int n))"
  shows "invert_T2rootp (Some ((cheb (nat n) (sqrt p))\<^sup>2)) n p_ref = Inr (Some p)"
proof -
  define th where "th = arccos (sqrt p)"
  define N where "N = real_of_int n"
  define t where "t = \<lfloor>arccos (sqrt p_ref) / (pi / (2 * N))\<rfloor>"
  define T2 where "T2 = (cheb (nat n) (sqrt p))\<^sup>2"
  have Npos: "0 < N" using n by (simp add: N_def)
  have T2cos: "T2 = (cos (N * th))\<^sup>2"
    using cheb_sqrt_sq [OF p, of "nat n"] n by (simp add: T2_def th_def N_def)
  have T2r: "0 \<le> T2" "T2 \<le> 1"
    unfolding T2cos by (simp_all add: abs_square_le_1)
  have dbl: "2 * T2 - 1 = cos (2 * N * th)"
    unfolding T2cos using cos_double_cos [of "N * th"] by (simp add: mult.assoc)
  have lo': "real_of_int t * pi \<le> 2 * N * th"
    using lo Npos by (simp add: t_def th_def N_def field_simps)
  have hi': "2 * N * th \<le> (real_of_int t + 1) * pi"
    using hi Npos by (simp add: t_def th_def N_def field_simps)
  have final: "(cos th)\<^sup>2 = p"
    using arccos_sqrt_bounds(3) [OF p] p by (simp add: th_def)
  have theta_eq: "(if t mod 2 = 0 then arccos (2 * T2 - 1) / (2 * N)
                   else 2 * (pi / (2 * N)) - arccos (2 * T2 - 1) / (2 * N))
                  + pi * real_of_int (t div 2) / N = th"
  proof (cases "t mod 2 = 0")
    case True
    define j where "j = t div 2"
    have tj: "t = 2 * j" using True by (auto simp: j_def)
    define phi where "phi = 2 * N * th - 2 * pi * real_of_int j"
    have phir: "0 \<le> phi" "phi \<le> pi"
      using lo' hi' by (simp_all add: phi_def tj algebra_simps)
    have "cos (2 * N * th) = cos (phi + 2 * pi * real_of_int j)" by (simp add: phi_def)
    also have "\<dots> = cos phi" by (rule cos_add_2pi_int)
    finally have "arccos (2 * T2 - 1) = phi" using phir by (simp add: dbl arccos_cos)
    then show ?thesis using True Npos by (simp add: phi_def j_def [symmetric] field_simps)
  next
    case False
    define j where "j = t div 2"
    have tj: "t = 2 * j + 1" using False unfolding j_def by presburger
    define phi where "phi = 2 * pi * real_of_int (j + 1) - 2 * N * th"
    have phir: "0 \<le> phi" "phi \<le> pi"
      using lo' hi' by (simp_all add: phi_def tj algebra_simps)
    have "cos (2 * N * th) = cos (2 * pi * real_of_int (j + 1) - phi)" by (simp add: phi_def)
    also have "\<dots> = cos phi" by (rule cos_sub_2pi_int)
    finally have "arccos (2 * T2 - 1) = phi" using phir by (simp add: dbl arccos_cos)
    then show ?thesis using False Npos by (simp add: phi_def j_def [symmetric] field_simps)
  qed
  have "n \<noteq> 0" using n by simp
  from invert_unfold [OF this T2r pr]
  have "invert_T2rootp (Some T2) n p_ref = Inr (Some ((cos th)\<^sup>2))"
    unfolding N_def [symmetric] t_def [symmetric] theta_eq .
  then show ?thesis by (simp add: final T2_def)
qed

section \<open>The degree selector\<close>

lemma search_k_gt:
  "odd n \<Longrightarrow> search_k n lo hi m = Some j \<Longrightarrow> m < j"
proof (induction n lo hi m rule: search_k.induct)
  case (1 n lo hi m)
  show ?case
  proof (cases "n > 2 * m + 1")
    case False
    with "1.prems" show ?thesis by (simp add: search_k.simps [of n])
  next
    case gt: True
    show ?thesis
    proof (cases "no_extremum n lo hi")
      case True
      with gt "1.prems" have j: "j = (n - 1) div 2" by (simp add: search_k.simps [of n])
      from \<open>odd n\<close> obtain q where q: "n = 2 * q + 1" by (auto elim: oddE)
      with gt j show ?thesis by simp
    next
      case False
      with gt "1.prems" have "search_k (n - 2) lo hi m = Some j" by (simp add: search_k.simps [of n])
      moreover have "odd (n - 2)" using \<open>odd n\<close> by simp
      ultimately show ?thesis using "1.IH" gt False by simp
    qed
  qed
qed

lemma first_candidate_odd: "odd (first_candidate lo hi)"
  by (auto simp: first_candidate_def Let_def)

lemma tested_from_nth:
  "i < length (tested_from n lo hi m) \<Longrightarrow> tested_from n lo hi m ! i = n - 2 * int i"
proof (induction n lo hi m arbitrary: i rule: tested_from.induct)
  case (1 n lo hi m)
  show ?case
  proof (cases "n > 2 * m + 1 \<and> \<not> no_extremum n lo hi")
    case True
    show ?thesis
    proof (cases i)
      case 0
      with True show ?thesis by (simp add: tested_from.simps [of n])
    next
      case (Suc i')
      with True "1.prems" have "i' < length (tested_from (n - 2) lo hi m)"
        by (simp add: tested_from.simps [of n])
      with True "1.IH" have "tested_from (n - 2) lo hi m ! i' = n - 2 - 2 * int i'" by simp
      with True Suc show ?thesis by (simp add: tested_from.simps [of n])
    qed
  next
    case False
    with "1.prems" show ?thesis by (auto simp: tested_from.simps [of n] split: if_splits)
  qed
qed

lemma search_k_tested:
  "search_k n lo hi m =
     (case tested_from n lo hi m of [] \<Rightarrow> None
      | c # cs \<Rightarrow> if no_extremum (last (c # cs)) lo hi then Some ((last (c # cs) - 1) div 2) else None)"
proof (induction n lo hi m rule: search_k.induct)
  case (1 n lo hi m)
  show ?case
  proof (cases "n > 2 * m + 1")
    case False
    then show ?thesis by (simp add: search_k.simps [of n] tested_from.simps [of n])
  next
    case gt: True
    show ?thesis
    proof (cases "no_extremum n lo hi")
      case True
      with gt show ?thesis by (simp add: search_k.simps [of n] tested_from.simps [of n])
    next
      case False
      with gt "1.IH" show ?thesis
        by (cases "tested_from (n - 2) lo hi m") (simp_all add: search_k.simps [of n] tested_from.simps [of n])
    qed
  qed
qed

lemma arccos_sqrt_strict:
  assumes "0 \<le> a" "a < b" "b \<le> 1"
  shows "arccos (sqrt b) < arccos (sqrt a)"
proof -
  have "sqrt a < sqrt b" using assms by simp
  moreover have "0 \<le> sqrt a" "sqrt b \<le> 1" using assms by simp_all
  ultimately show ?thesis by (intro arccos_less_arccos) linarith+
qed

lemma find_next_k_unit: "find_next_k 0 1 0 = Inr None"
  by (simp add: find_next_k_def first_candidate_def py_int_def search_k.simps [of 1])

lemma arccos_sqrt_half: "arccos (sqrt (1 / 2)) = pi / 4"
proof -
  have "sqrt (1 / 2) = cos (pi / 4)"
    by (simp add: cos_45 real_sqrt_divide field_simps)
  then show ?thesis by (simp add: arccos_cos)
qed

lemma arccos_sqrt_cos_sq:
  assumes "0 \<le> x" "x \<le> pi / 2"
  shows "arccos (sqrt ((cos x)\<^sup>2)) = x"
proof -
  have "0 \<le> cos x" using assms by (intro cos_ge_zero) linarith+
  then have "sqrt ((cos x)\<^sup>2) = cos x" by simp
  then show ?thesis using assms by (simp add: arccos_cos)
qed

lemma cos_ninth:
  "0 \<le> cos (pi / 9)" "(cos (pi / 9))\<^sup>2 < 1"
proof -
  have "- (pi / 2) \<le> pi / 9" "pi / 9 \<le> pi / 2" using pi_gt_zero by linarith+
  then show nn: "0 \<le> cos (pi / 9)" by (rule cos_ge_zero)
  have "cos (pi / 9) < cos 0" by (intro cos_monotone_0_pi) simp_all
  with nn have "(cos (pi / 9))\<^sup>2 < 1\<^sup>2" by (intro power_strict_mono) simp_all
  then show "(cos (pi / 9))\<^sup>2 < 1" by simp
qed

lemma find_next_k_example: "find_next_k ((cos (pi / 9))\<^sup>2) 1 0 = Inr (Some 1)"
proof -
  have "arccos (sqrt ((cos (pi / 9))\<^sup>2)) = pi / 9"
    by (rule arccos_sqrt_cos_sq) simp_all
  then have th: "arccos \<bar>cos (pi / 9)\<bar> = pi / 9" by simp
  have c1: "(cos (pi / 9))\<^sup>2 \<le> 1" by (simp add: abs_square_le_1)
  have fc: "first_candidate 0 (pi / 9) = 5"
    by (simp add: first_candidate_def py_int_def)
  have t5: "\<not> no_extremum 5 0 (pi / 9)" by (simp add: no_extremum_def py_int_def)
  have t3: "no_extremum 3 0 (pi / 9)" by (simp add: no_extremum_def py_int_def)
  have "search_k 5 0 (pi / 9) 0 = Some 1"
    using t5 t3 by (simp add: search_k.simps [of 5] search_k.simps [of 3])
  then show ?thesis using c1 by (simp add: find_next_k_def th fc Let_def)
qed

lemma candidates_example: "candidates_tested ((cos (pi / 9))\<^sup>2) 1 0 = [5, 3]"
proof -
  have "arccos (sqrt ((cos (pi / 9))\<^sup>2)) = pi / 9"
    by (rule arccos_sqrt_cos_sq) simp_all
  then have th: "arccos \<bar>cos (pi / 9)\<bar> = pi / 9" by simp
  have fc: "first_candidate 0 (pi / 9) = 5"
    by (simp add: first_candidate_def py_int_def)
  have t5: "\<not> no_extremum 5 0 (pi / 9)" by (simp add: no_extremum_def py_int_def)
  have t3: "no_extremum 3 0 (pi / 9)" by (simp add: no_extremum_def py_int_def)
  have "tested_from 5 0 (pi / 9) 0 = [5, 3]"
    using t5 t3 by (simp add: tested_from.simps [of 5] tested_from.simps [of 3])
  then show ?thesis by (simp add: candidates_tested_def th fc Let_def)
qed

lemma arccos_sqrt_three_quarters: "arccos (sqrt (3 / 4)) = pi / 6"
proof -
  have "sqrt (3 / 4) = cos (pi / 6)"
    by (simp add: cos_30 real_sqrt_divide)
  then show ?thesis by (simp add: arccos_cos)
qed

lemma arccos_sqrt_three_fifths:
  "pi / 6 < arccos (sqrt (3 / 5))" "arccos (sqrt (3 / 5)) < pi / 4"
proof -
  have "arccos (sqrt (3 / 4)) < arccos (sqrt (3 / 5))"
    by (rule arccos_sqrt_strict) simp_all
  then show "pi / 6 < arccos (sqrt (3 / 5))" by (simp only: arccos_sqrt_three_quarters)
  have "arccos (sqrt (3 / 5)) < arccos (sqrt (1 / 2))"
    by (rule arccos_sqrt_strict) simp_all
  then show "arccos (sqrt (3 / 5)) < pi / 4" by (simp only: arccos_sqrt_half)
qed

lemma floor_three_fifths: "\<lfloor>(pi / 2) / (arccos (sqrt (3 / 5)) - arccos (sqrt 1))\<rfloor> = (2::int)"
proof -
  define th where "th = arccos (sqrt (3 / 5))"
  have b: "pi / 6 < th" "th < pi / 4" using arccos_sqrt_three_fifths by (simp_all add: th_def)
  then have "0 < th" using pi_gt_zero by linarith
  with b have "2 \<le> (pi / 2) / th" "(pi / 2) / th < 3" by (simp_all add: field_simps)
  then have "\<lfloor>(pi / 2) / th\<rfloor> = 2" by linarith
  then show ?thesis by (simp add: th_def)
qed

lemma candidates_three_fifths: "candidates_tested (3 / 5) 1 0 = [3]"
proof -
  define th where "th = arccos (sqrt (3 / 5))"
  have b: "pi / 6 < th" "th < pi / 4" using arccos_sqrt_three_fifths by (simp_all add: th_def)
  then have pos: "0 < th" using pi_gt_zero by linarith
  have fl: "\<lfloor>(pi / 2) / (th - 0)\<rfloor> = 2" using floor_three_fifths by (simp add: th_def)
  have "0 \<le> (pi / 2) / (th - 0)" using pos by simp
  then have "py_int ((pi / 2) / (th - 0)) = 2" using fl by (simp add: py_int_def)
  then have fc: "first_candidate 0 th = 3" by (simp add: first_candidate_def)
  have "1 < 2 * 3 * th / pi" "2 * 3 * th / pi < 2" using b by (simp_all add: field_simps)
  then have "\<lfloor>2 * 3 * th / pi\<rfloor> = 1" by linarith
  then have t3: "\<not> no_extremum 3 0 th" using pos by (simp add: no_extremum_def py_int_def)
  have "tested_from 3 0 th 0 = [3]"
    using t3 by (simp add: tested_from.simps [of 3] tested_from.simps [of 1])
  then show ?thesis by (simp add: candidates_tested_def fc Let_def th_def [symmetric])
qed

lemma first_candidate_floor:
  assumes "lo < hi"
  shows "first_candidate lo hi =
           (if even \<lfloor>(pi / 2) / (hi - lo)\<rfloor> then \<lfloor>(pi / 2) / (hi - lo)\<rfloor> + 1
            else \<lfloor>(pi / 2) / (hi - lo)\<rfloor>)"
proof -
  have "0 \<le> (pi / 2) / (hi - lo)" using assms by simp
  then show ?thesis by (simp add: first_candidate_def py_int_def Let_def even_iff_mod_2_eq_zero)
qed

lemma candidate_above_floor_fails:
  assumes lo: "0 \<le> lo" "lo < hi" and n: "(pi / 2) / (hi - lo) < real_of_int n"
  shows "\<not> no_extremum n lo hi"
proof -
  have d: "0 < hi - lo" using lo by simp
  have npos: "0 < real_of_int n"
  proof -
    have "0 \<le> (pi / 2) / (hi - lo)" using d by simp
    with n show ?thesis by linarith
  qed
  from n d have "pi / 2 < real_of_int n * (hi - lo)" by (simp add: field_simps)
  then have "pi < 2 * real_of_int n * hi - 2 * real_of_int n * lo" by (simp add: algebra_simps)
  then have "1 < (2 * real_of_int n * hi - 2 * real_of_int n * lo) / pi" by simp
  then have gt: "2 * real_of_int n * lo / pi + 1 < 2 * real_of_int n * hi / pi"
    by (simp add: diff_divide_distrib)
  have a: "0 \<le> 2 * real_of_int n * lo / pi" using lo npos by simp
  have b: "0 \<le> 2 * real_of_int n * hi / pi" using lo npos by simp
  have "\<lfloor>2 * real_of_int n * lo / pi\<rfloor> < \<lfloor>2 * real_of_int n * hi / pi\<rfloor>"
    using gt by linarith
  then show ?thesis using a b by (simp add: no_extremum_def py_int_def)
qed

section \<open>Claims on the two subroutines\<close>

text \<open>
  Claim C10. For every \<open>T2\<close> in \<open>[0,1]\<close>, every positive odd \<open>n\<close> and every reference
  \<open>p_int\<close> in \<open>(0,1]\<close>, \<open>invert_T2rootp\<close> raises nothing, returns a number and not a
  NaN, and that number lies in \<open>[0,1]\<close>.
\<close>

theorem invert_T2rootp_unit_interval:
  assumes "0 \<le> T2" "T2 \<le> 1" "0 < n" "odd n" "0 < p_int" "p_int \<le> 1"
  shows "\<exists>v. invert_T2rootp (Some T2) n p_int = Inr (Some v) \<and> 0 \<le> v \<and> v \<le> 1"
proof -
  have "n \<noteq> 0" "0 \<le> p_int" using assms by simp_all
  from invert_defined [OF assms(1,2) this assms(6)] obtain v where
    v: "invert_T2rootp (Some T2) n p_int = Inr (Some v)" by blast
  from invert_range [OF v] v show ?thesis by blast
qed

text \<open>
  The hypotheses of the last theorem hold at \<open>T2 = 1/2\<close>, \<open>n = 3\<close>, \<open>p_int = 1/2\<close>.
\<close>

theorem invert_T2rootp_unit_interval_witness:
  "(0::real) \<le> 1 / 2 \<and> (1 / 2 :: real) \<le> 1 \<and> (0::int) < 3 \<and> odd (3::int)
   \<and> (0::real) < 1 / 2
   \<and> (\<exists>v. invert_T2rootp (Some (1 / 2)) 3 (1 / 2) = Inr (Some v) \<and> 0 \<le> v \<and> v \<le> 1)"
  using invert_T2rootp_unit_interval [of "1 / 2" 3 "1 / 2"] by simp

text \<open>
  Over the reals the inverter is exact: for every odd degree \<open>n = 2 kk + 1\<close>, every \<open>p\<close>
  and every reference \<open>p_ref\<close> in \<open>[0,1]\<close> such that \<open>arccos(\<surd>p)\<close> lies in the closed
  half-period \<open>[t c, (t+1) c]\<close> of the index \<open>t\<close> that line 60 computes for the reference
  (\<open>c = \<pi>/(2n)\<close>), \<open>invert_T2rootp(T\<^sub>n(\<surd>p)\<^sup>2, n, p_ref)\<close> is \<open>p\<close>. This is a fact of exact
  arithmetic, in which \<open>T\<^sub>n(\<surd>p)\<^sup>2\<close> never exceeds 1; the doubles of the code can exceed 1,
  as the theorem after the example shows.
\<close>

lemma invert_roundtrip_exact:
  fixes kk :: nat and p p_ref :: real
  assumes "0 \<le> p" "p \<le> 1" "0 \<le> p_ref" "p_ref \<le> 1"
    and "real_of_int \<lfloor>arccos (sqrt p_ref) / (pi / (2 * real (2 * kk + 1)))\<rfloor>
           * (pi / (2 * real (2 * kk + 1))) \<le> arccos (sqrt p)"
    and "arccos (sqrt p)
           \<le> (real_of_int \<lfloor>arccos (sqrt p_ref) / (pi / (2 * real (2 * kk + 1)))\<rfloor> + 1)
               * (pi / (2 * real (2 * kk + 1)))"
  shows "invert_T2rootp (Some ((cheb (2 * kk + 1) (sqrt p))\<^sup>2)) (2 * int kk + 1) p_ref
           = Inr (Some p)"
proof -
  have n: "0 < 2 * int kk + 1" by simp
  have r: "real_of_int (2 * int kk + 1) = real (2 * kk + 1)" by simp
  have c: "nat (2 * int kk + 1) = 2 * kk + 1" by simp
  show ?thesis
    using invert_roundtrip_gen [OF n assms(1-4), unfolded r c] assms(5,6) by blast
qed

lemma invert_roundtrip_exact_example:
  "invert_T2rootp (Some ((cheb 3 (sqrt (1 / 2)))\<^sup>2)) 3 (1 / 2) = Inr (Some (1 / 2))"
proof -
  have f: "\<lfloor>arccos (sqrt (1 / 2)) / (pi / (2 * real (2 * 1 + 1)))\<rfloor> = 1"
    by (simp add: arccos_sqrt_half)
  have lo: "real_of_int \<lfloor>arccos (sqrt (1 / 2)) / (pi / (2 * real (2 * 1 + 1)))\<rfloor>
           * (pi / (2 * real (2 * 1 + 1))) \<le> arccos (sqrt (1 / 2))"
    unfolding f by (simp add: arccos_sqrt_half)
  have hi: "arccos (sqrt (1 / 2))
           \<le> (real_of_int \<lfloor>arccos (sqrt (1 / 2)) / (pi / (2 * real (2 * 1 + 1)))\<rfloor> + 1)
               * (pi / (2 * real (2 * 1 + 1)))"
    unfolding f by (simp add: arccos_sqrt_half)
  have "invert_T2rootp (Some ((cheb (2 * 1 + 1) (sqrt (1 / 2)))\<^sup>2)) (2 * int 1 + 1) (1 / 2)
           = Inr (Some (1 / 2))"
    by (rule invert_roundtrip_exact [OF _ _ _ _ lo hi]) simp_all
  then show ?thesis by simp
qed



text \<open>
  The claim's second half fails on the code: with \<open>min_k = 0\<close>, \<open>p_min = 0\<close>,
  \<open>p_max = 1\<close> the first candidate is \<open>n = 1\<close>, the loop condition \<open>1 > 1\<close> is false
  at once, and the function returns \<^verbatim>\<open>None\<close>, not \<open>k = 0\<close>.
\<close>

theorem find_next_k_unit_not_zero: "find_next_k 0 1 0 \<noteq> Inr (Some 0)"
  by (simp add: find_next_k_unit)

text \<open>
  Claim C4, as amended. For every interval and every floor, the Degree Selector never
  returns a \<open>k\<close> whose degree \<open>2k+1\<close> is at most \<open>2 min_k + 1\<close>: a returned \<open>k\<close> is
  greater than \<open>min_k\<close>. And in the case \<open>min_k = 0\<close>, \<open>p_min = 0\<close>, \<open>p_max = 1\<close> it
  returns the sentinel \<^verbatim>\<open>None\<close>: the degree 1 is not above the floor.
\<close>

theorem find_next_k_above_floor:
  "(find_next_k pmin pmax min_k = Inr (Some j) \<longrightarrow> min_k < j)
   \<and> find_next_k 0 1 0 = Inr None"
proof (intro conjI impI)
  assume "find_next_k pmin pmax min_k = Inr (Some j)"
  then have "search_k (first_candidate (arccos (sqrt pmax)) (arccos (sqrt pmin)))
               (arccos (sqrt pmax)) (arccos (sqrt pmin)) min_k = Some j"
    by (auto simp: find_next_k_def Let_def split: if_splits)
  with first_candidate_odd show "min_k < j" by (rule search_k_gt)
next
  show "find_next_k 0 1 0 = Inr None" by (rule find_next_k_unit)
qed

text \<open>
  An interval on which the selector does return a degree: \<open>[cos\<^sup>2(\<pi>/9), 1]\<close> with
  floor 0 gives \<open>k = 1\<close>.
\<close>

theorem find_next_k_above_floor_witness:
  "find_next_k ((cos (pi / 9))\<^sup>2) 1 0 = Inr (Some 1) \<and> (0::int) < 1"
  using find_next_k_above_floor [of "(cos (pi / 9))\<^sup>2" 1 0 1] find_next_k_example by simp

text \<open>
  On \<open>[3/5, 1]\<close> the angles differ by less than \<open>\<pi>/4\<close> and more than \<open>\<pi>/6\<close>, and the
  floor of line 78 is 2. The largest odd integer at most 2 is 1, but the first candidate
  the loop tests is 3.
\<close>

theorem first_candidate_exceeds_floor:
  "hd (candidates_tested (3 / 5) 1 0) = 3
   \<and> \<lfloor>(pi / 2) / (arccos (sqrt (3 / 5)) - arccos (sqrt 1))\<rfloor> = (2::int)"
  by (simp only: candidates_three_fifths floor_three_fifths) simp

text \<open>
  Claim C5, as amended. For \<open>0 \<le> p_min < p_max \<le> 1\<close>, with \<open>N\<close> the floor of
  \<open>(\<pi>/2)/(\<theta>_hi - \<theta>_lo)\<close>, the first candidate tested is \<open>N\<close> when \<open>N\<close> is odd and
  \<open>N + 1\<close> when \<open>N\<close> is even (the least odd integer \<open>\<ge> N\<close>, not the largest odd
  integer \<open>\<le> N\<close>); the candidates then fall by 2: the \<open>i\<close>-th candidate tested is the
  first one minus \<open>2 i\<close>.
\<close>

theorem candidates_tested_descend:
  assumes "0 \<le> pmin" "pmin < pmax" "pmax \<le> 1"
    and "i < length (candidates_tested pmin pmax min_k)"
  shows "candidates_tested pmin pmax min_k ! i =
           (if even \<lfloor>(pi / 2) / (arccos (sqrt pmin) - arccos (sqrt pmax))\<rfloor>
            then \<lfloor>(pi / 2) / (arccos (sqrt pmin) - arccos (sqrt pmax))\<rfloor> + 1
            else \<lfloor>(pi / 2) / (arccos (sqrt pmin) - arccos (sqrt pmax))\<rfloor>) - 2 * int i"
proof -
  have lt: "arccos (sqrt pmax) < arccos (sqrt pmin)" using assms(1-3) by (rule arccos_sqrt_strict)
  have cand: "candidates_tested pmin pmax min_k =
      tested_from (first_candidate (arccos (sqrt pmax)) (arccos (sqrt pmin)))
        (arccos (sqrt pmax)) (arccos (sqrt pmin)) min_k"
    by (simp add: candidates_tested_def Let_def)
  have "candidates_tested pmin pmax min_k ! i
     = first_candidate (arccos (sqrt pmax)) (arccos (sqrt pmin)) - 2 * int i"
    using assms(4) unfolding cand by (rule tested_from_nth)
  then show ?thesis by (simp only: first_candidate_floor [OF lt])
qed

text \<open>
  On \<open>[cos\<^sup>2(\<pi>/9), 1]\<close> with floor 0 the quotient of line 78 is \<open>9/2\<close> and its floor
  is 4; the candidates tested are 5 and then 3.
\<close>

theorem candidates_tested_descend_witness:
  "0 \<le> (cos (pi / 9))\<^sup>2 \<and> (cos (pi / 9))\<^sup>2 < 1
   \<and> 1 < length (candidates_tested ((cos (pi / 9))\<^sup>2) 1 0)
   \<and> \<lfloor>(pi / 2) / (arccos (sqrt ((cos (pi / 9))\<^sup>2)) - arccos (sqrt 1))\<rfloor> = (4::int)
   \<and> candidates_tested ((cos (pi / 9))\<^sup>2) 1 0 ! 1 = 4 + 1 - 2 * int 1"
proof -
  have lt: "(cos (pi / 9))\<^sup>2 < 1" by (rule cos_ninth)
  have th: "arccos (sqrt ((cos (pi / 9))\<^sup>2)) = pi / 9"
    by (rule arccos_sqrt_cos_sq) simp_all
  have "\<lfloor>(pi / 2) / (pi / 9 - 0)\<rfloor> = (4::int)" by simp
  then have fl: "\<lfloor>(pi / 2) / (arccos (sqrt ((cos (pi / 9))\<^sup>2)) - arccos (sqrt 1))\<rfloor> = (4::int)"
    by (simp only: th real_sqrt_one arccos_1)
  have len: "1 < length (candidates_tested ((cos (pi / 9))\<^sup>2) 1 0)"
    by (simp add: candidates_example)
  have ge: "0 \<le> (cos (pi / 9))\<^sup>2" by simp
  from candidates_tested_descend [OF ge lt _ len] fl ge lt len show ?thesis by simp
qed

section \<open>One iteration of the loop, and the loop\<close>

lemma toss_coins_fields:
  "p_min (toss_coins rnd T2 i st) = p_min st"
  "p_max (toss_coins rnd T2 i st) = p_max st"
  "k (toss_coins rnd T2 i st) = k st"
  by (induction i arbitrary: st) simp_all

lemma toss_coins_queries:
  "queries (toss_coins rnd T2 i st) = queries st + int i * (2 * k st + 1)"
  by (induction i arbitrary: st) (simp_all add: toss_coins_fields algebra_simps)

lemma py_max_ge: "a \<le> py_max a b"
  by (simp add: py_max_def split: option.splits)

lemma py_min_le: "py_min a b \<le> a"
  by (simp add: py_min_def split: option.splits)

lemma py_sorted2_cases:
  "py_sorted2 x y = (a, b) \<Longrightarrow> (a = x \<and> b = y) \<or> (a = y \<and> b = x)"
  by (auto simp: py_sorted2_def split: if_splits)

lemma find_next_k_Inr_range:
  "find_next_k a b m = Inr res \<Longrightarrow> 0 \<le> a \<and> a \<le> 1 \<and> 0 \<le> b \<and> b \<le> 1"
  by (auto simp: find_next_k_def Let_def split: if_splits)

lemma chebpe_iter_shape:
  assumes "chebpe_iter confint rnd p_target eps alpha_T err_max nu r Nshots st = Inr st'"
  shows "\<exists>st2 x y.
           p_min st2 = p_min st \<and> p_max st2 = p_max st
         \<and> (x = None \<or> (\<exists>v. x = Some v \<and> 0 \<le> v \<and> v \<le> 1))
         \<and> (y = None \<or> (\<exists>v. y = Some v \<and> 0 \<le> v \<and> v \<le> 1))
         \<and> st' = st2\<lparr>p_min := py_max (p_min st2) (map_option (\<lambda>v. v - 1 / 10 ^ 15) x),
                      p_max := py_min (p_max st2) (map_option (\<lambda>v. v + 1 / 10 ^ 15) y)\<rparr>"
proof -
  from assms obtain new_k where fk: "find_next_k (p_min st) (p_max st) (r * k st) = Inr new_k"
    by (auto simp: chebpe_iter_def split: sum.splits)
  define st1 where "st1 = (case new_k of None \<Rightarrow> st
                           | Some nk \<Rightarrow> st\<lparr>k := nk, num_flips := 0, num_heads := 0\<rparr>)"
  define st2 where "st2 = toss_coins rnd (oracle_T2 p_target (k st1))
                            (nat (Nshots_i err_max nu eps Nshots st1)) st1"
  define ci where "ci = confint (num_heads st2) (num_flips st2) alpha_T"
  define p_int where "p_int = (p_min st2 + p_max st2) / 2"
  have p1: "p_min st1 = p_min st" "p_max st1 = p_max st"
    by (simp_all add: st1_def split: option.splits)
  have p2: "p_min st2 = p_min st" "p_max st2 = p_max st"
    by (simp_all add: st2_def toss_coins_fields p1)
  from assms fk obtain u w where
    u: "invert_T2rootp (fst ci) (2 * k st2 + 1) p_int = Inr u" and
    w: "invert_T2rootp (snd ci) (2 * k st2 + 1) p_int = Inr w" and
    st': "st' = (let (a, b) = py_sorted2 u w in
                  st2\<lparr>p_min := py_max (p_min st2) (map_option (\<lambda>v. v - 1 / 10 ^ 15) a),
                      p_max := py_min (p_max st2) (map_option (\<lambda>v. v + 1 / 10 ^ 15) b)\<rparr>)"
    by (auto simp: chebpe_iter_def Let_def st1_def [symmetric] st2_def [symmetric]
          ci_def [symmetric] p_int_def [symmetric] split: sum.splits prod.splits)
  have ru: "u = None \<or> (\<exists>v. u = Some v \<and> 0 \<le> v \<and> v \<le> 1)"
    using invert_range [of "fst ci" "2 * k st2 + 1" p_int] u by (cases u) auto
  have rw: "w = None \<or> (\<exists>v. w = Some v \<and> 0 \<le> v \<and> v \<le> 1)"
    using invert_range [of "snd ci" "2 * k st2 + 1" p_int] w by (cases w) auto
  obtain a b where ab: "py_sorted2 u w = (a, b)" by (cases "py_sorted2 u w")
  from py_sorted2_cases [OF ab] ru rw
  have ra: "a = None \<or> (\<exists>v. a = Some v \<and> 0 \<le> v \<and> v \<le> 1)"
    and rb: "b = None \<or> (\<exists>v. b = Some v \<and> 0 \<le> v \<and> v \<le> 1)" by auto
  from st' ab have "st' = st2\<lparr>p_min := py_max (p_min st2) (map_option (\<lambda>v. v - 1 / 10 ^ 15) a),
                      p_max := py_min (p_max st2) (map_option (\<lambda>v. v + 1 / 10 ^ 15) b)\<rparr>"
    by simp
  with p2 ra rb show ?thesis by blast
qed

lemma chebpe_iter_mono:
  assumes "chebpe_iter confint rnd p_target eps alpha_T err_max nu r Nshots st = Inr st'"
  shows "p_min st \<le> p_min st' \<and> p_max st' \<le> p_max st"
proof -
  from chebpe_iter_shape [OF assms] obtain st2 x y where
    "p_min st2 = p_min st" "p_max st2 = p_max st"
    "st' = st2\<lparr>p_min := py_max (p_min st2) (map_option (\<lambda>v. v - 1 / 10 ^ 15) x),
                p_max := py_min (p_max st2) (map_option (\<lambda>v. v + 1 / 10 ^ 15) y)\<rparr>"
    by blast
  then show ?thesis by (simp add: py_max_ge py_min_le)
qed

lemma chebpe_iter_unit:
  assumes "chebpe_iter confint rnd p_target eps alpha_T err_max nu r Nshots st = Inr st'"
  shows "0 \<le> p_min st' \<and> p_min st' \<le> 1 \<and> 0 \<le> p_max st' \<and> p_max st' \<le> 1"
proof -
  from assms obtain new_k where "find_next_k (p_min st) (p_max st) (r * k st) = Inr new_k"
    by (auto simp: chebpe_iter_def split: sum.splits)
  from find_next_k_Inr_range [OF this]
  have r0: "0 \<le> p_min st" "p_min st \<le> 1" "0 \<le> p_max st" "p_max st \<le> 1" by simp_all
  from chebpe_iter_shape [OF assms] obtain st2 x y where
    p2: "p_min st2 = p_min st" "p_max st2 = p_max st" and
    x: "x = None \<or> (\<exists>v. x = Some v \<and> 0 \<le> v \<and> v \<le> 1)" and
    y: "y = None \<or> (\<exists>v. y = Some v \<and> 0 \<le> v \<and> v \<le> 1)" and
    st': "st' = st2\<lparr>p_min := py_max (p_min st2) (map_option (\<lambda>v. v - 1 / 10 ^ 15) x),
                p_max := py_min (p_max st2) (map_option (\<lambda>v. v + 1 / 10 ^ 15) y)\<rparr>"
    by blast
  have a: "0 \<le> py_max (p_min st) (map_option (\<lambda>v. v - 1 / 10 ^ 15) x)"
    using r0 py_max_ge [of "p_min st"] by (rule_tac order_trans)
  have b: "py_max (p_min st) (map_option (\<lambda>v. v - 1 / 10 ^ 15) x) \<le> 1"
    using r0 x by (auto simp: py_max_def)
  have c: "0 \<le> py_min (p_max st) (map_option (\<lambda>v. v + 1 / 10 ^ 15) y)"
    using r0 y by (auto simp: py_min_def)
  have d: "py_min (p_max st) (map_option (\<lambda>v. v + 1 / 10 ^ 15) y) \<le> 1"
    using r0 py_min_le [of "p_max st"] by (rule_tac order_trans)
  show ?thesis using a b c d by (simp add: st' p2)
qed

lemma chebpe_iterate_Suc_last:
  "chebpe_iterate confint rnd p_target eps alpha_T err_max nu r Nshots (Suc n) st = Some s' \<longleftrightarrow>
     (\<exists>s. chebpe_iterate confint rnd p_target eps alpha_T err_max nu r Nshots n st = Some s
          \<and> p_max s - p_min s > eps * 2
          \<and> chebpe_iter confint rnd p_target eps alpha_T err_max nu r Nshots s = Inr s')"
proof (induction n arbitrary: st)
  case 0
  show ?case by (auto split: sum.splits)
next
  case (Suc n)
  show ?case
  proof (cases "p_max st - p_min st > eps * 2")
    case False
    then show ?thesis by simp
  next
    case True
    show ?thesis
    proof (cases "chebpe_iter confint rnd p_target eps alpha_T err_max nu r Nshots st")
      case (Inl e)
      with True show ?thesis by simp
    next
      case (Inr s1)
      have "chebpe_iterate confint rnd p_target eps alpha_T err_max nu r Nshots (Suc (Suc n)) st
            = chebpe_iterate confint rnd p_target eps alpha_T err_max nu r Nshots (Suc n) s1"
        using True Inr by simp
      moreover have "chebpe_iterate confint rnd p_target eps alpha_T err_max nu r Nshots (Suc n) st
            = chebpe_iterate confint rnd p_target eps alpha_T err_max nu r Nshots n s1"
        using True Inr by simp
      ultimately show ?thesis using Suc.IH [of s1] by simp
    qed
  qed
qed

lemma chebpe_iterate_add:
  "chebpe_iterate confint rnd p_target eps alpha_T err_max nu r Nshots (i + j) st = Some s' \<Longrightarrow>
     \<exists>s. chebpe_iterate confint rnd p_target eps alpha_T err_max nu r Nshots i st = Some s
        \<and> chebpe_iterate confint rnd p_target eps alpha_T err_max nu r Nshots j s = Some s'"
proof (induction j arbitrary: s')
  case 0
  then show ?case by simp
next
  case (Suc j)
  from Suc.prems have "chebpe_iterate confint rnd p_target eps alpha_T err_max nu r Nshots (Suc (i + j)) st = Some s'"
    by simp
  then obtain s1 where s1: "chebpe_iterate confint rnd p_target eps alpha_T err_max nu r Nshots (i + j) st = Some s1"
    and g: "p_max s1 - p_min s1 > eps * 2"
    and it: "chebpe_iter confint rnd p_target eps alpha_T err_max nu r Nshots s1 = Inr s'"
    unfolding chebpe_iterate_Suc_last by blast
  from Suc.IH [OF s1] obtain s where
    a: "chebpe_iterate confint rnd p_target eps alpha_T err_max nu r Nshots i st = Some s" and
    b: "chebpe_iterate confint rnd p_target eps alpha_T err_max nu r Nshots j s = Some s1" by blast
  have "chebpe_iterate confint rnd p_target eps alpha_T err_max nu r Nshots (Suc j) s = Some s'"
    unfolding chebpe_iterate_Suc_last using b g it by blast
  with a show ?case by blast
qed

lemma chebpe_iterate_mono:
  "chebpe_iterate confint rnd p_target eps alpha_T err_max nu r Nshots j s = Some s' \<Longrightarrow>
     p_min s \<le> p_min s' \<and> p_max s' \<le> p_max s"
proof (induction j arbitrary: s')
  case 0
  then show ?case by simp
next
  case (Suc j)
  from Suc.prems obtain s1 where
    s1: "chebpe_iterate confint rnd p_target eps alpha_T err_max nu r Nshots j s = Some s1" and
    it: "chebpe_iter confint rnd p_target eps alpha_T err_max nu r Nshots s1 = Inr s'"
    unfolding chebpe_iterate_Suc_last by blast
  from Suc.IH [OF s1] chebpe_iter_mono [OF it] show ?case by linarith
qed

lemma chebpe_iterate_unit:
  assumes "chebpe_iterate confint rnd p_target eps alpha_T err_max nu r Nshots j s = Some s'"
    and "0 \<le> p_min s \<and> p_min s \<le> 1 \<and> 0 \<le> p_max s \<and> p_max s \<le> 1"
  shows "0 \<le> p_min s' \<and> p_min s' \<le> 1 \<and> 0 \<le> p_max s' \<and> p_max s' \<le> 1"
proof (cases j)
  case 0
  with assms show ?thesis by simp
next
  case (Suc j')
  with assms(1) have
    "chebpe_iterate confint rnd p_target eps alpha_T err_max nu r Nshots (Suc j') s = Some s'"
    by simp
  then obtain s1 where
    "chebpe_iter confint rnd p_target eps alpha_T err_max nu r Nshots s1 = Inr s'"
    unfolding chebpe_iterate_Suc_last by blast
  then show ?thesis by (rule chebpe_iter_unit)
qed

lemma chebpe_loop_iterate:
  "chebpe_loop confint rnd p_target eps alpha_T err_max nu r Nshots fuel st = Some (Inr st') \<longleftrightarrow>
     (\<exists>n \<le> fuel. chebpe_iterate confint rnd p_target eps alpha_T err_max nu r Nshots n st = Some st'
               \<and> \<not> p_max st' - p_min st' > eps * 2)"
proof (induction fuel arbitrary: st)
  case 0
  show ?case by auto
next
  case (Suc fuel)
  show ?case
  proof (cases "p_max st - p_min st > eps * 2")
    case False
    have "(\<exists>n \<le> Suc fuel. chebpe_iterate confint rnd p_target eps alpha_T err_max nu r Nshots n st = Some st'
               \<and> \<not> p_max st' - p_min st' > eps * 2) \<longleftrightarrow> st' = st"
    proof
      assume "\<exists>n \<le> Suc fuel. chebpe_iterate confint rnd p_target eps alpha_T err_max nu r Nshots n st = Some st'
               \<and> \<not> p_max st' - p_min st' > eps * 2"
      then obtain n where n: "chebpe_iterate confint rnd p_target eps alpha_T err_max nu r Nshots n st = Some st'" by blast
      show "st' = st" using n False by (cases n) simp_all
    next
      assume "st' = st"
      then have "chebpe_iterate confint rnd p_target eps alpha_T err_max nu r Nshots 0 st = Some st'
               \<and> \<not> p_max st' - p_min st' > eps * 2" using False by simp
      then show "\<exists>n \<le> Suc fuel. chebpe_iterate confint rnd p_target eps alpha_T err_max nu r Nshots n st = Some st'
               \<and> \<not> p_max st' - p_min st' > eps * 2" by blast
    qed
    with False show ?thesis by auto
  next
    case True
    show ?thesis
    proof (cases "chebpe_iter confint rnd p_target eps alpha_T err_max nu r Nshots st")
      case (Inl e)
      have "chebpe_iterate confint rnd p_target eps alpha_T err_max nu r Nshots n st \<noteq> Some st'
               \<or> p_max st' - p_min st' > eps * 2" for n
        using True Inl by (cases n) auto
      with True Inl show ?thesis by auto
    next
      case (Inr s1)
      have "(\<exists>n \<le> Suc fuel. chebpe_iterate confint rnd p_target eps alpha_T err_max nu r Nshots n st = Some st'
               \<and> \<not> p_max st' - p_min st' > eps * 2) \<longleftrightarrow>
            (\<exists>n \<le> fuel. chebpe_iterate confint rnd p_target eps alpha_T err_max nu r Nshots n s1 = Some st'
               \<and> \<not> p_max st' - p_min st' > eps * 2)" (is "?L \<longleftrightarrow> ?R")
      proof
        assume ?L
        then obtain n where n: "n \<le> Suc fuel"
          "chebpe_iterate confint rnd p_target eps alpha_T err_max nu r Nshots n st = Some st'"
          "\<not> p_max st' - p_min st' > eps * 2" by blast
        show ?R
        proof (cases n)
          case 0
          with n True show ?thesis by simp
        next
          case (Suc n')
          with n True Inr have "n' \<le> fuel"
            "chebpe_iterate confint rnd p_target eps alpha_T err_max nu r Nshots n' s1 = Some st'"
            by simp_all
          with n(3) show ?thesis by blast
        qed
      next
        assume ?R
        then obtain n where n: "n \<le> fuel"
          "chebpe_iterate confint rnd p_target eps alpha_T err_max nu r Nshots n s1 = Some st'"
          "\<not> p_max st' - p_min st' > eps * 2" by blast
        then have "Suc n \<le> Suc fuel"
          "chebpe_iterate confint rnd p_target eps alpha_T err_max nu r Nshots (Suc n) st = Some st'"
          using True Inr by simp_all
        with n(3) show ?L by blast
      qed
      with True Inr Suc.IH [of s1] show ?thesis by simp
    qed
  qed
qed

section \<open>The early/late test\<close>

lemma cheb3_sqrt_sq:
  assumes "0 \<le> p"
  shows "(cheb 3 (sqrt p))\<^sup>2 = p * (4 * p - 3)\<^sup>2"
proof -
  have x: "sqrt p * sqrt p = p" using assms by simp
  have "cheb 3 (sqrt p) = 2 * sqrt p * (2 * (sqrt p * sqrt p) - 1) - sqrt p"
    by (simp add: numeral_3_eq_3 algebra_simps)
  also have "\<dots> = sqrt p * (4 * p - 3)" unfolding x by (simp add: algebra_simps)
  finally have "(cheb 3 (sqrt p))\<^sup>2 = (sqrt p)\<^sup>2 * (4 * p - 3)\<^sup>2"
    by (simp add: power_mult_distrib)
  then show ?thesis using assms by simp
qed

lemma gap_falling: "gap falling_state = - (118 / 125)"
proof -
  have a: "(cheb 3 (sqrt (7 / 10)))\<^sup>2 = 7 / 250"
    using cheb3_sqrt_sq [of "7 / 10"] by (simp add: power2_eq_square)
  have b: "(cheb 3 (sqrt (3 / 10)))\<^sup>2 = 243 / 250"
    using cheb3_sqrt_sq [of "3 / 10"] by (simp add: power2_eq_square)
  have "gap falling_state = (cheb 3 (sqrt (7 / 10)))\<^sup>2 - (cheb 3 (sqrt (3 / 10)))\<^sup>2"
    by (simp add: gap_def falling_state_def)
  then show ?thesis unfolding a b by simp
qed

lemma negative_gap_late:
  assumes "gap st < 0" "0 \<le> err_max" "p_min st \<le> p_max st" "0 < nu * eps"
  shows "Nshots_i err_max nu eps Nshots st = 1"
proof -
  have "0 \<le> err_max * (p_max st - p_min st)" using assms by simp
  then have "err_max * (p_max st - p_min st) / gap st \<le> 0"
    using assms(1) by (simp add: divide_nonneg_neg)
  then show ?thesis
    using assms by (simp add: Nshots_i_def late_ratio_def np_divide_def np_less_def)
qed

lemma positive_gap_test:
  assumes "0 < gap st"
  shows "Nshots_i err_max nu eps Nshots st =
           (if err_max * (p_max st - p_min st) / \<bar>gap st\<bar> < nu * eps then 1 else Nshots)"
  using assms by (simp add: Nshots_i_def late_ratio_def np_divide_def np_less_def)

text \<open>
  Claim C3 fails on the code: line 151 divides by the signed gap, although the notebook's
  own description of the test takes the absolute value. In \<open>falling_state\<close> the gap is
  \<open>-118/125\<close>; with \<open>err_max = 1/10\<close>, \<open>nu = 8\<close>, \<open>eps = 1/1000\<close>, \<open>Nshots = 100\<close> the
  code declares "late" (one sample), while the ratio with the absolute value of the gap
  is not below \<open>nu eps\<close>.
\<close>

theorem late_test_negative_gap:
  "gap falling_state < 0
   \<and> Nshots_i (1 / 10) 8 (1 / 1000) 100 falling_state = 1
   \<and> \<not> (1 / 10) * (p_max falling_state - p_min falling_state) / \<bar>gap falling_state\<bar> < 8 * (1 / 1000)"
proof -
  have w: "p_max falling_state - p_min falling_state = 2 / 5" by (simp add: falling_state_def)
  have "late_ratio (1 / 10) falling_state = Quot (- (5 / 118))"
    by (simp add: late_ratio_def w gap_falling np_divide_def)
  then have "Nshots_i (1 / 10) 8 (1 / 1000) 100 falling_state = 1"
    by (simp add: Nshots_i_def np_less_def)
  then show ?thesis by (simp add: gap_falling w)
qed

text \<open>
  Were the gap zero at line 151, with a numerator that is not negative, the NumPy
  quotient would be \<open>+inf\<close> or a NaN and the comparison false.
\<close>

lemma zero_gap_early:
  assumes "gap st = 0" "0 \<le> err_max" "p_min st \<le> p_max st"
  shows "Nshots_i err_max nu eps Nshots st = Nshots"
proof -
  have "0 \<le> err_max * (p_max st - p_min st)" using assms by simp
  then have "late_ratio err_max st = PlusInf \<or> late_ratio err_max st = QNaN"
    using assms(1) by (auto simp: late_ratio_def np_divide_def)
  then show ?thesis by (auto simp: Nshots_i_def np_less_def)
qed

section \<open>Concrete runs with no heads\<close>

lemma arccos_sqrt_lt_quarter:
  assumes "1 / 2 < b" "b \<le> 1"
  shows "arccos (sqrt b) < pi / 4"
proof -
  have "sqrt (1 / 2) < sqrt b" using assms by simp
  moreover have "0 \<le> sqrt (1 / 2)" by simp
  moreover have "sqrt b \<le> 1" using assms by simp
  ultimately have "arccos (sqrt b) < arccos (sqrt (1 / 2))"
    by (intro arccos_less_arccos) linarith+
  then show ?thesis by (simp only: arccos_sqrt_half)
qed

lemma find_next_k_zero_None:
  assumes "1 / 2 < b" "b \<le> 1" "0 \<le> m"
  shows "find_next_k 0 b m = Inr None"
proof -
  define lo where "lo = arccos (sqrt b)"
  have lo0: "0 \<le> lo" using arccos_sqrt_bounds(1) [of b] assms by (simp add: lo_def)
  have lo4: "lo < pi / 4" using arccos_sqrt_lt_quarter [OF assms(1,2)] by (simp add: lo_def)
  have d: "0 < pi / 2 - lo" "pi / 2 - lo \<le> pi / 2" "pi / 4 < pi / 2 - lo"
    using lo0 lo4 by simp_all
  have q1: "1 \<le> (pi / 2) / (pi / 2 - lo)" using d by (simp add: field_simps)
  have q2: "(pi / 2) / (pi / 2 - lo) < 2" using d by (simp add: field_simps)
  have "\<lfloor>(pi / 2) / (pi / 2 - lo)\<rfloor> = 1" using q1 q2 by linarith
  then have "py_int ((pi / 2) / (pi / 2 - lo)) = 1" using q1 by (simp add: py_int_def)
  then have fc: "first_candidate lo (pi / 2) = 1" by (simp add: first_candidate_def)
  have s: "search_k 1 lo (pi / 2) m = None" using assms(3) by (simp add: search_k.simps [of 1])
  have ne: "pi / 2 \<noteq> lo" using d by simp
  show ?thesis using assms ne fc s
    by (simp add: find_next_k_def Let_def lo_def [symmetric])
qed

lemma cos_half_arccos_sq:
  assumes "- 1 \<le> y" "y \<le> 1"
  shows "(cos (arccos y / 2))\<^sup>2 = (1 + y) / 2"
proof -
  have "cos (2 * (arccos y / 2)) = 2 * (cos (arccos y / 2))\<^sup>2 - 1" by (rule cos_double_cos)
  moreover have "cos (2 * (arccos y / 2)) = y" using assms by simp
  ultimately show ?thesis by simp
qed

lemma invert_degree_one:
  assumes "0 \<le> T2" "T2 \<le> 1" "0 < p" "p \<le> 1"
  shows "invert_T2rootp (Some T2) 1 p = Inr (Some T2)"
proof -
  have "0 < sqrt p" "sqrt p \<le> 1" using assms by simp_all
  then have "arccos (sqrt p) < arccos 0" by (intro arccos_less_arccos) linarith+
  then have lt: "arccos (sqrt p) < pi / 2" by simp
  have ge: "0 \<le> arccos (sqrt p)" using arccos_sqrt_bounds(1) [of p] assms by simp
  have "\<lfloor>arccos (sqrt p) / (pi / 2)\<rfloor> = 0"
  proof -
    have "0 \<le> arccos (sqrt p) / (pi / 2)" using ge by simp
    moreover have "arccos (sqrt p) / (pi / 2) < 1" using lt by (simp add: field_simps)
    ultimately show ?thesis by linarith
  qed
  then have t: "\<lfloor>arccos (sqrt p) * 2 / pi\<rfloor> = 0" by simp
  have "(cos (arccos (2 * T2 - 1) / 2))\<^sup>2 = T2"
    using cos_half_arccos_sq [of "2 * T2 - 1"] assms by simp
  then show ?thesis using assms by (simp add: invert_T2rootp_def Let_def t)
qed

lemma chebpe_iter_eval:
  assumes "find_next_k (p_min st) (p_max st) (r * k st) = Inr new_k"
    and "st1 = (case new_k of None \<Rightarrow> st | Some nk \<Rightarrow> st\<lparr>k := nk, num_flips := 0, num_heads := 0\<rparr>)"
    and "st2 = toss_coins rnd (oracle_T2 p_target (k st1)) (nat (Nshots_i err_max nu eps Nshots st1)) st1"
    and "confint (num_heads st2) (num_flips st2) alpha_T = (a, b)"
    and "invert_T2rootp a (2 * k st2 + 1) ((p_min st2 + p_max st2) / 2) = Inr x"
    and "invert_T2rootp b (2 * k st2 + 1) ((p_min st2 + p_max st2) / 2) = Inr y"
    and "py_sorted2 x y = (x', y')"
  shows "chebpe_iter confint rnd p_target eps alpha_T err_max nu r Nshots st =
           Inr (st2\<lparr>p_min := py_max (p_min st2) (map_option (\<lambda>v. v - 1 / 10 ^ 15) x'),
                    p_max := py_min (p_max st2) (map_option (\<lambda>v. v + 1 / 10 ^ 15) y')\<rparr>)"
  using assms by (simp add: chebpe_iter_def Let_def)

lemma chebpe_iter_tails:
  assumes b: "1 / 2 < b" "b \<le> 1"
    and ci: "confint 0 (f + 1) alpha_T = (Some 0, Some u)" and u: "0 \<le> u" "u \<le> 1"
  shows "chebpe_iter confint rnd_zero 0 eps alpha_T err_max nu 2 1
           \<lparr>p_min = 0, p_max = b, num_flips = f, num_heads = 0, k = 0, queries = q, draws = d\<rparr>
         = Inr \<lparr>p_min = 0, p_max = min b (u + 1 / 10 ^ 15), num_flips = f + 1, num_heads = 0,
                k = 0, queries = q + 1, draws = Suc d\<rparr>"
proof -
  define st where "st = \<lparr>p_min = 0, p_max = b, num_flips = f, num_heads = 0, k = 0, queries = q, draws = d\<rparr>"
  define st2 where "st2 = \<lparr>p_min = 0, p_max = b, num_flips = f + 1, num_heads = 0, k = 0,
                     queries = q + 1, draws = Suc d\<rparr>"
  have fk: "find_next_k (p_min st) (p_max st) (2 * k st) = Inr None"
    using find_next_k_zero_None [OF b, of 0] by (simp add: st_def)
  have s1: "st = (case None of None \<Rightarrow> st | Some nk \<Rightarrow> st\<lparr>k := nk, num_flips := 0, num_heads := 0\<rparr>)"
    by simp
  have s2: "st2 = toss_coins rnd_zero (oracle_T2 0 (k st)) (nat (Nshots_i err_max nu eps 1 st)) st"
    by (simp add: st2_def st_def Nshots_i_def oracle_T2_def nan_less_def rnd_zero_def)
  have pint: "0 < (p_min st2 + p_max st2) / 2" "(p_min st2 + p_max st2) / 2 \<le> 1"
    using b by (simp_all add: st2_def)
  have i0: "invert_T2rootp (Some 0) (2 * k st2 + 1) ((p_min st2 + p_max st2) / 2) = Inr (Some 0)"
    using invert_degree_one [OF _ _ pint, of 0] by (simp add: st2_def)
  have iu: "invert_T2rootp (Some u) (2 * k st2 + 1) ((p_min st2 + p_max st2) / 2) = Inr (Some u)"
    using invert_degree_one [OF u pint] by (simp add: st2_def)
  have srt: "py_sorted2 (Some 0) (Some u) = (Some 0, Some u)"
    using u by (simp add: py_sorted2_def nan_less_def)
  have ci': "confint (num_heads st2) (num_flips st2) alpha_T = (Some 0, Some u)"
    using ci by (simp add: st2_def)
  have "chebpe_iter confint rnd_zero 0 eps alpha_T err_max nu 2 1 st
        = Inr (st2\<lparr>p_min := py_max (p_min st2) (map_option (\<lambda>v. v - 1 / 10 ^ 15) (Some 0)),
                    p_max := py_min (p_max st2) (map_option (\<lambda>v. v + 1 / 10 ^ 15) (Some u))\<rparr>)"
    by (rule chebpe_iter_eval [where new_k = None and ?st1.0 = st and a = "Some 0" and b = "Some u"
          and x = "Some 0" and y = "Some u"]) (fact fk s1 s2 ci' i0 iu srt)+
  also have "\<dots> = Inr \<lparr>p_min = 0, p_max = min b (u + 1 / 10 ^ 15), num_flips = f + 1, num_heads = 0,
                k = 0, queries = q + 1, draws = Suc d\<rparr>"
    by (simp add: st2_def py_max_def py_min_def min_def)
  finally show ?thesis by (simp add: st_def)
qed

lemma chebpe_T_quarter: "chebpe_T (1 / 4) 2 = Inr 1"
proof -
  have "ln (2::real) \<noteq> 0" by simp
  then have "ln (2::real) / ln 2 = 1" by simp
  then show ?thesis by (simp add: chebpe_T_def)
qed

lemma chebpe_after_quarter:
  "chebpe_after confint rnd n p_target (1 / 4) alpha nu 2 Nshots =
     chebpe_iterate confint rnd p_target (1 / 4) alpha (max_error_cp confint alpha Nshots) nu 2
       Nshots n chebpe_init"
  by (simp add: chebpe_after_def chebpe_T_quarter)

lemma edge_1: "clopper_pearson_edge 0 (0 + 1) (1 / 8) = (Some 0, Some (15 / 16))"
  by (simp add: clopper_pearson_edge_def)

lemma sqrt_sixteenth: "sqrt (1 / 16) = 1 / 4"
  by (rule real_sqrt_unique) (simp_all add: power2_eq_square)

lemma edge_2: "clopper_pearson_edge 0 (1 + 1) (1 / 8) = (Some 0, Some (3 / 4))"
proof -
  have "root 2 (1 / 16) = 1 / 4" using sqrt_sixteenth by (simp add: sqrt_def)
  then show ?thesis by (simp add: clopper_pearson_edge_def)
qed

lemma root3_bounds: "1 / 4 < root 3 (1 / 16)" "root 3 (1 / 16) \<le> 1"
proof -
  have a: "root 3 ((1 / 4) ^ 3) = (1 / 4 :: real)" by (rule real_root_power_cancel) simp_all
  have "(1 / 4) ^ 3 < (1 / 16 :: real)" by (simp add: power3_eq_cube)
  then have "root 3 ((1 / 4) ^ 3) < root 3 (1 / 16 :: real)"
    by (subst real_root_less_iff) simp_all
  then show "1 / 4 < root 3 (1 / 16)" unfolding a .
  have "root 3 (1 / 16) \<le> root 3 (1 :: real)" by (subst real_root_le_iff) simp_all
  then show "root 3 (1 / 16) \<le> 1" by simp
qed

lemma edge_3: "clopper_pearson_edge 0 (2 + 1) (1 / 8) = (Some 0, Some (1 - root 3 (1 / 16)))"
  by (simp add: clopper_pearson_edge_def)


lemma run_tails_1:
  "chebpe_iterate clopper_pearson_edge rnd_zero 0 (1 / 4) (1 / 8) err_max nu 2 1 (Suc 0) chebpe_init
     = Some \<lparr>p_min = 0, p_max = 15 / 16 + 1 / 10 ^ 15, num_flips = 1, num_heads = 0, k = 0,
             queries = 1, draws = 1\<rparr>"
proof -
  have "chebpe_iter clopper_pearson_edge rnd_zero 0 (1 / 4) (1 / 8) err_max nu 2 1 chebpe_init
        = Inr \<lparr>p_min = 0, p_max = min 1 (15 / 16 + 1 / 10 ^ 15), num_flips = 0 + 1, num_heads = 0,
                k = 0, queries = 0 + 1, draws = Suc 0\<rparr>"
    unfolding chebpe_init_def
    by (rule chebpe_iter_tails [where f = 0 and u = "15 / 16"]) (simp_all add: edge_1 [simplified])
  then show ?thesis by (simp add: chebpe_init_def)
qed

lemma run_tails_2:
  "chebpe_iterate clopper_pearson_edge rnd_zero 0 (1 / 4) (1 / 8) err_max nu 2 1 (Suc (Suc 0)) chebpe_init
     = Some \<lparr>p_min = 0, p_max = 3 / 4 + 1 / 10 ^ 15, num_flips = 2, num_heads = 0, k = 0,
             queries = 2, draws = 2\<rparr>"
proof -
  have "chebpe_iter clopper_pearson_edge rnd_zero 0 (1 / 4) (1 / 8) err_max nu 2 1
          \<lparr>p_min = 0, p_max = 15 / 16 + 1 / 10 ^ 15, num_flips = 1, num_heads = 0, k = 0,
             queries = 1, draws = 1\<rparr>
        = Inr \<lparr>p_min = 0, p_max = min (15 / 16 + 1 / 10 ^ 15) (3 / 4 + 1 / 10 ^ 15), num_flips = 1 + 1,
                num_heads = 0, k = 0, queries = 1 + 1, draws = Suc 1\<rparr>"
    by (rule chebpe_iter_tails [where f = 1 and u = "3 / 4"]) (simp_all add: edge_2 [simplified])
  then have "chebpe_iter clopper_pearson_edge rnd_zero 0 (1 / 4) (1 / 8) err_max nu 2 1
          \<lparr>p_min = 0, p_max = 15 / 16 + 1 / 10 ^ 15, num_flips = 1, num_heads = 0, k = 0,
             queries = 1, draws = 1\<rparr>
        = Inr \<lparr>p_min = 0, p_max = 3 / 4 + 1 / 10 ^ 15, num_flips = 2, num_heads = 0, k = 0,
             queries = 2, draws = 2\<rparr>" by simp
  then show ?thesis
    unfolding chebpe_iterate_Suc_last [of _ _ _ _ _ _ _ _ _ "Suc 0"] run_tails_1 by simp
qed

lemma run_tails_3:
  "chebpe_iterate clopper_pearson_edge rnd_zero 0 (1 / 4) (1 / 8) err_max nu 2 1 (Suc (Suc (Suc 0))) chebpe_init
     = Some \<lparr>p_min = 0, p_max = 1 - root 3 (1 / 16) + 1 / 10 ^ 15, num_flips = 3, num_heads = 0,
             k = 0, queries = 3, draws = 3\<rparr>"
proof -
  have "chebpe_iter clopper_pearson_edge rnd_zero 0 (1 / 4) (1 / 8) err_max nu 2 1
          \<lparr>p_min = 0, p_max = 3 / 4 + 1 / 10 ^ 15, num_flips = 2, num_heads = 0, k = 0,
             queries = 2, draws = 2\<rparr>
        = Inr \<lparr>p_min = 0, p_max = min (3 / 4 + 1 / 10 ^ 15) (1 - root 3 (1 / 16) + 1 / 10 ^ 15),
                num_flips = 2 + 1, num_heads = 0, k = 0, queries = 2 + 1, draws = Suc 2\<rparr>"
    using root3_bounds
    by (intro chebpe_iter_tails [where f = 2 and u = "1 - root 3 (1 / 16)"])
       (simp_all add: edge_3 [simplified])
  moreover have "min (3 / 4 + 1 / 10 ^ 15) (1 - root 3 (1 / 16) + 1 / 10 ^ 15)
                 = 1 - root 3 (1 / 16) + 1 / 10 ^ 15"
    using root3_bounds by (simp add: min_def)
  ultimately have "chebpe_iter clopper_pearson_edge rnd_zero 0 (1 / 4) (1 / 8) err_max nu 2 1
          \<lparr>p_min = 0, p_max = 3 / 4 + 1 / 10 ^ 15, num_flips = 2, num_heads = 0, k = 0,
             queries = 2, draws = 2\<rparr>
        = Inr \<lparr>p_min = 0, p_max = 1 - root 3 (1 / 16) + 1 / 10 ^ 15, num_flips = 3, num_heads = 0,
             k = 0, queries = 3, draws = 3\<rparr>" by simp
  then show ?thesis
    unfolding chebpe_iterate_Suc_last [of _ _ _ _ _ _ _ _ _ "Suc (Suc 0)"] run_tails_2 by simp
qed


section \<open>Claims on the runs of the loop\<close>

lemma chebpe_after_iterate:
  assumes "chebpe_after confint rnd n p_target eps alpha nu r Nshots = Some s"
  obtains T where "chebpe_T eps r = Inr T" "T \<noteq> 0"
    "chebpe_iterate confint rnd p_target eps (alpha / real_of_int T)
       (max_error_cp confint (alpha / real_of_int T) Nshots) nu r Nshots n chebpe_init = Some s"
  using assms by (auto simp: chebpe_after_def Let_def split: sum.splits if_splits)

lemma chebpe_after_eq:
  assumes "chebpe_T eps r = Inr T" "T \<noteq> 0"
  shows "chebpe_after confint rnd n p_target eps alpha nu r Nshots =
           chebpe_iterate confint rnd p_target eps (alpha / real_of_int T)
             (max_error_cp confint (alpha / real_of_int T) Nshots) nu r Nshots n chebpe_init"
  using assms by (simp add: chebpe_after_def Let_def del: chebpe_iterate.simps)

text \<open>
  Claim C1. In every run of \<^verbatim>\<open>chebpe\<close>, the width \<open>p_max - p_min\<close> at the top of an
  iteration is at most the width at the top of the iteration before it.
\<close>

theorem chebpe_width_nonincreasing:
  assumes "chebpe_after confint rnd i p_target eps alpha nu r Nshots = Some s"
    and "chebpe_after confint rnd (Suc i) p_target eps alpha nu r Nshots = Some s'"
  shows "p_max s' - p_min s' \<le> p_max s - p_min s"
proof -
  from assms(1) obtain T where T: "chebpe_T eps r = Inr T" "T \<noteq> 0" and
    s: "chebpe_iterate confint rnd p_target eps (alpha / real_of_int T)
       (max_error_cp confint (alpha / real_of_int T) Nshots) nu r Nshots i chebpe_init = Some s"
    by (rule chebpe_after_iterate)
  from assms(2) have
    "chebpe_iterate confint rnd p_target eps (alpha / real_of_int T)
       (max_error_cp confint (alpha / real_of_int T) Nshots) nu r Nshots (Suc i) chebpe_init = Some s'"
    unfolding chebpe_after_eq [OF T] .
  then obtain s0 where
    "chebpe_iterate confint rnd p_target eps (alpha / real_of_int T)
       (max_error_cp confint (alpha / real_of_int T) Nshots) nu r Nshots i chebpe_init = Some s0"
    and it: "chebpe_iter confint rnd p_target eps (alpha / real_of_int T)
       (max_error_cp confint (alpha / real_of_int T) Nshots) nu r Nshots s0 = Inr s'"
    unfolding chebpe_iterate_Suc_last by blast
  with s have "s0 = s" by simp
  with chebpe_iter_mono [OF it] show ?thesis by simp
qed

text \<open>
  A run that has a first and a second iteration: \<open>eps = 1/4\<close>, \<open>alpha = 1/8\<close>,
  \<open>Nshots = 1\<close>, target 0. The width goes from 1 to \<open>15/16 + 10\<^sup>-\<^sup>1\<^sup>5\<close>.
\<close>

theorem chebpe_width_nonincreasing_witness:
  "chebpe_after clopper_pearson_edge rnd_zero 0 0 (1 / 4) (1 / 8) 8 2 1 = Some chebpe_init
   \<and> chebpe_after clopper_pearson_edge rnd_zero (Suc 0) 0 (1 / 4) (1 / 8) 8 2 1
       = Some \<lparr>p_min = 0, p_max = 15 / 16 + 1 / 10 ^ 15, num_flips = 1, num_heads = 0, k = 0,
               queries = 1, draws = 1\<rparr>
   \<and> 15 / 16 + 1 / 10 ^ 15 - 0 \<le> p_max chebpe_init - p_min chebpe_init"
proof -
  have a: "chebpe_after clopper_pearson_edge rnd_zero 0 0 (1 / 4) (1 / 8) 8 2 1 = Some chebpe_init"
    by (simp add: chebpe_after_quarter)
  have b: "chebpe_after clopper_pearson_edge rnd_zero (Suc 0) 0 (1 / 4) (1 / 8) 8 2 1
       = Some \<lparr>p_min = 0, p_max = 15 / 16 + 1 / 10 ^ 15, num_flips = 1, num_heads = 0, k = 0,
               queries = 1, draws = 1\<rparr>"
    unfolding chebpe_after_quarter by (rule run_tails_1)
  from chebpe_width_nonincreasing [OF a b] a b show ?thesis by simp
qed

text \<open>
  Claim C9. In every run of \<^verbatim>\<open>chebpe\<close>, from the top of one iteration to the top of any
  later one \<open>p_min\<close> does not fall and \<open>p_max\<close> does not rise, and both bounds lie in
  \<open>[0,1]\<close> at the top of every iteration (\<open>j = 0\<close> gives the bounds for every state the
  run reaches).
\<close>

theorem chebpe_bounds_monotone:
  assumes "chebpe_after confint rnd i p_target eps alpha nu r Nshots = Some s"
    and "chebpe_after confint rnd (i + j) p_target eps alpha nu r Nshots = Some s'"
  shows "p_min s \<le> p_min s' \<and> p_max s' \<le> p_max s
         \<and> 0 \<le> p_min s' \<and> p_min s' \<le> 1 \<and> 0 \<le> p_max s' \<and> p_max s' \<le> 1"
proof -
  from assms(1) obtain T where T: "chebpe_T eps r = Inr T" "T \<noteq> 0" and
    s: "chebpe_iterate confint rnd p_target eps (alpha / real_of_int T)
       (max_error_cp confint (alpha / real_of_int T) Nshots) nu r Nshots i chebpe_init = Some s"
    by (rule chebpe_after_iterate)
  from assms(2) have s': "chebpe_iterate confint rnd p_target eps (alpha / real_of_int T)
       (max_error_cp confint (alpha / real_of_int T) Nshots) nu r Nshots (i + j) chebpe_init = Some s'"
    unfolding chebpe_after_eq [OF T] .
  from chebpe_iterate_add [OF s'] s have
    "chebpe_iterate confint rnd p_target eps (alpha / real_of_int T)
       (max_error_cp confint (alpha / real_of_int T) Nshots) nu r Nshots j s = Some s'"
    by auto
  from chebpe_iterate_mono [OF this] have m: "p_min s \<le> p_min s' \<and> p_max s' \<le> p_max s" .
  have "0 \<le> p_min chebpe_init \<and> p_min chebpe_init \<le> 1 \<and> 0 \<le> p_max chebpe_init \<and> p_max chebpe_init \<le> 1"
    by (simp add: chebpe_init_def)
  from chebpe_iterate_unit [OF s' this] m show ?thesis by simp
qed

text \<open>
  The same run at the tops of its second and third iterations: \<open>p_max\<close> goes from
  \<open>15/16 + 10\<^sup>-\<^sup>1\<^sup>5\<close> to \<open>3/4 + 10\<^sup>-\<^sup>1\<^sup>5\<close>.
\<close>

theorem chebpe_bounds_monotone_witness:
  "chebpe_after clopper_pearson_edge rnd_zero 1 0 (1 / 4) (1 / 8) 8 2 1
       = Some \<lparr>p_min = 0, p_max = 15 / 16 + 1 / 10 ^ 15, num_flips = 1, num_heads = 0, k = 0,
               queries = 1, draws = 1\<rparr>
   \<and> chebpe_after clopper_pearson_edge rnd_zero (1 + 1) 0 (1 / 4) (1 / 8) 8 2 1
       = Some \<lparr>p_min = 0, p_max = 3 / 4 + 1 / 10 ^ 15, num_flips = 2, num_heads = 0, k = 0,
               queries = 2, draws = 2\<rparr>
   \<and> (3 / 4 + 1 / 10 ^ 15 :: real) \<le> 15 / 16 + 1 / 10 ^ 15 \<and> (3 / 4 + 1 / 10 ^ 15 :: real) \<le> 1"
proof -
  have a: "chebpe_after clopper_pearson_edge rnd_zero 1 0 (1 / 4) (1 / 8) 8 2 1
       = Some \<lparr>p_min = 0, p_max = 15 / 16 + 1 / 10 ^ 15, num_flips = 1, num_heads = 0, k = 0,
               queries = 1, draws = 1\<rparr>"
    unfolding chebpe_after_quarter using run_tails_1 by simp
  have b: "chebpe_after clopper_pearson_edge rnd_zero (1 + 1) 0 (1 / 4) (1 / 8) 8 2 1
       = Some \<lparr>p_min = 0, p_max = 3 / 4 + 1 / 10 ^ 15, num_flips = 2, num_heads = 0, k = 0,
               queries = 2, draws = 2\<rparr>"
    unfolding chebpe_after_quarter using run_tails_2 by (simp add: numeral_2_eq_2)
  from chebpe_bounds_monotone [OF a b] a b show ?thesis by simp
qed




text \<open>
  The claim fails on the code: with \<open>eps = 1/4\<close>, \<open>r = 2\<close> (so \<open>T = 1\<close> and the cap
  would be 2), \<open>alpha = 1/8\<close>, \<open>Nshots = 1\<close> and target 0, the run completes a third
  iteration, with no error.
\<close>

theorem chebpe_runs_past_twice_T:
  "chebpe_T (1 / 4) 2 = Inr 1
   \<and> chebpe_after clopper_pearson_edge rnd_zero 3 0 (1 / 4) (1 / 8) 8 2 1
       = Some \<lparr>p_min = 0, p_max = 1 - root 3 (1 / 16) + 1 / 10 ^ 15, num_flips = 3, num_heads = 0,
               k = 0, queries = 3, draws = 3\<rparr>"
  unfolding chebpe_after_quarter using run_tails_3 by (simp add: chebpe_T_quarter numeral_3_eq_3)

text \<open>
  Claim C7, as amended. The loop has no cap on its iterations and reports no
  internal-invariant violation: \<^verbatim>\<open>chebpe\<close> returns a result exactly when, after some
  number \<open>n\<close> of iterations that only the fuel bounds, the width \<open>p_max - p_min\<close> is at
  most \<open>2 eps\<close>, and the result is read off the state reached then. \<open>T\<close> is computed
  once at the start and only divides \<open>alpha\<close>.
\<close>

theorem chebpe_returns_iff_width:
  "chebpe confint rnd fuel p_target eps alpha nu r Nshots = Some (Inr res) \<longleftrightarrow>
     (\<exists>n st. n \<le> fuel
        \<and> chebpe_after confint rnd n p_target eps alpha nu r Nshots = Some st
        \<and> p_max st - p_min st \<le> eps * 2
        \<and> res = chebpe_result p_target st)"
proof (cases "chebpe_T eps r")
  case (Inl e)
  then show ?thesis by (simp add: chebpe_def chebpe_after_def)
next
  case (Inr T)
  show ?thesis
  proof (cases "T = 0")
    case True
    with Inr show ?thesis by (simp add: chebpe_def chebpe_after_def)
  next
    case False
    define aT where "aT = alpha / real_of_int T"
    define em where "em = max_error_cp confint aT Nshots"
    have L: "chebpe confint rnd fuel p_target eps alpha nu r Nshots = Some (Inr res) \<longleftrightarrow>
             (\<exists>st. chebpe_loop confint rnd p_target eps aT em nu r Nshots fuel chebpe_init = Some (Inr st)
                   \<and> res = chebpe_result p_target st)"
      using Inr False
      by (auto simp: chebpe_def Let_def aT_def em_def split: option.splits sum.splits)
    have R: "chebpe_after confint rnd n p_target eps alpha nu r Nshots
             = chebpe_iterate confint rnd p_target eps aT em nu r Nshots n chebpe_init" for n
      using Inr False by (simp add: chebpe_after_def Let_def aT_def em_def)
    show ?thesis unfolding L R chebpe_loop_iterate by (auto simp: not_less)
  qed
qed

lemma edge_9_1: "clopper_pearson_edge 0 (0 + 1) (9 / 10) = (Some 0, Some (11 / 20))"
  by (simp add: clopper_pearson_edge_def)

lemma edge_9_2: "clopper_pearson_edge 0 (1 + 1) (9 / 10) = (Some 0, Some (1 - root 2 (9 / 20)))"
  by (simp add: clopper_pearson_edge_def)

lemma root2_bounds: "3 / 5 < root 2 (9 / 20)" "root 2 (9 / 20) \<le> 1"
proof -
  have a: "root 2 ((3 / 5) ^ 2) = (3 / 5 :: real)" by (rule real_root_power_cancel) simp_all
  have "(3 / 5) ^ 2 < (9 / 20 :: real)" by (simp add: power2_eq_square)
  then have "root 2 ((3 / 5) ^ 2) < root 2 (9 / 20 :: real)"
    by (subst real_root_less_iff) simp_all
  then show "3 / 5 < root 2 (9 / 20)" unfolding a .
  have "root 2 (9 / 20) \<le> root 2 (1 :: real)" by (subst real_root_le_iff) simp_all
  then show "root 2 (9 / 20) \<le> 1" by simp
qed

lemma run_short_1:
  "chebpe_iterate clopper_pearson_edge rnd_zero 0 (1 / 4) (9 / 10) err_max nu 2 1 (Suc 0) chebpe_init
     = Some \<lparr>p_min = 0, p_max = 11 / 20 + 1 / 10 ^ 15, num_flips = 1, num_heads = 0, k = 0,
             queries = 1, draws = 1\<rparr>"
proof -
  have "chebpe_iter clopper_pearson_edge rnd_zero 0 (1 / 4) (9 / 10) err_max nu 2 1 chebpe_init
        = Inr \<lparr>p_min = 0, p_max = min 1 (11 / 20 + 1 / 10 ^ 15), num_flips = 0 + 1, num_heads = 0,
                k = 0, queries = 0 + 1, draws = Suc 0\<rparr>"
    unfolding chebpe_init_def
    by (rule chebpe_iter_tails [where f = 0 and u = "11 / 20"]) (simp_all add: edge_9_1 [simplified])
  then show ?thesis by (simp add: chebpe_init_def)
qed

lemma run_short_2:
  "chebpe_iterate clopper_pearson_edge rnd_zero 0 (1 / 4) (9 / 10) err_max nu 2 1 (Suc (Suc 0)) chebpe_init
     = Some \<lparr>p_min = 0, p_max = 1 - root 2 (9 / 20) + 1 / 10 ^ 15, num_flips = 2, num_heads = 0,
             k = 0, queries = 2, draws = 2\<rparr>"
proof -
  have "chebpe_iter clopper_pearson_edge rnd_zero 0 (1 / 4) (9 / 10) err_max nu 2 1
          \<lparr>p_min = 0, p_max = 11 / 20 + 1 / 10 ^ 15, num_flips = 1, num_heads = 0, k = 0,
             queries = 1, draws = 1\<rparr>
        = Inr \<lparr>p_min = 0, p_max = min (11 / 20 + 1 / 10 ^ 15) (1 - root 2 (9 / 20) + 1 / 10 ^ 15),
                num_flips = 1 + 1, num_heads = 0, k = 0, queries = 1 + 1, draws = Suc 1\<rparr>"
    using root2_bounds
    by (intro chebpe_iter_tails [where f = 1 and u = "1 - root 2 (9 / 20)"])
       (simp_all add: edge_9_2 [simplified])
  moreover have "min (11 / 20 + 1 / 10 ^ 15) (1 - root 2 (9 / 20) + 1 / 10 ^ 15)
                 = 1 - root 2 (9 / 20) + 1 / 10 ^ 15"
    using root2_bounds by (simp add: min_def)
  ultimately have "chebpe_iter clopper_pearson_edge rnd_zero 0 (1 / 4) (9 / 10) err_max nu 2 1
          \<lparr>p_min = 0, p_max = 11 / 20 + 1 / 10 ^ 15, num_flips = 1, num_heads = 0, k = 0,
             queries = 1, draws = 1\<rparr>
        = Inr \<lparr>p_min = 0, p_max = 1 - root 2 (9 / 20) + 1 / 10 ^ 15, num_flips = 2, num_heads = 0,
             k = 0, queries = 2, draws = 2\<rparr>" by simp
  then show ?thesis
    unfolding chebpe_iterate_Suc_last [of _ _ _ _ _ _ _ _ _ "Suc 0"] run_short_1 by simp
qed

text \<open>
  A run that returns: \<open>eps = 1/4\<close>, \<open>alpha = 9/10\<close>, \<open>Nshots = 1\<close>, target 0 stops after
  two iterations.
\<close>

theorem chebpe_returns_iff_width_witness:
  "chebpe clopper_pearson_edge rnd_zero 2 0 (1 / 4) (9 / 10) 8 2 1
     = Some (Inr (chebpe_result 0
         \<lparr>p_min = 0, p_max = 1 - root 2 (9 / 20) + 1 / 10 ^ 15, num_flips = 2, num_heads = 0,
          k = 0, queries = 2, draws = 2\<rparr>))"
proof -
  have a: "chebpe_after clopper_pearson_edge rnd_zero 2 0 (1 / 4) (9 / 10) 8 2 1
        = Some \<lparr>p_min = 0, p_max = 1 - root 2 (9 / 20) + 1 / 10 ^ 15, num_flips = 2, num_heads = 0,
          k = 0, queries = 2, draws = 2\<rparr>"
    unfolding chebpe_after_quarter using run_short_2 by (simp add: numeral_2_eq_2)
  have b: "1 - root 2 (9 / 20) + 1 / 10 ^ 15 - 0 \<le> (1 / 4) * (2::real)"
    using root2_bounds by simp
  show ?thesis
    unfolding chebpe_returns_iff_width using a b by (intro exI [of _ 2] exI conjI) simp_all
qed

section \<open>The gap in the iterations of a run\<close>
















end
